theory Spec2Isabelle
  imports Complex_Main "HOL-Library.Sublist" "HOL-Library.Multiset" "HOL-Library.Monad_Syntax"
begin

text \<open>
  The diagnosis history view of the farm-management client loads a collection of
  diagnosis records and derives from it, in memory, a filtered set, a sorted set and a
  visible page, and it exports the sorted set as CSV. This theory embeds that pipeline,
  the load effect of the view and the load effect of the dashboard, as they are written
  in \<open>DiagnosisHistory.jsx\<close> and \<open>Dashboard.jsx\<close>, and proves what the specification
  states about them. A computation that can throw returns an option, \<open>None\<close> standing
  for the exception (here always a TypeError); the state of a component is a record that
  the handlers take and return.
\<close>

section \<open>JavaScript values and the built-ins the client relies on\<close>

text \<open>
  The client keeps whatever the REST backend returned: parsed JSON. A value is therefore
  one of the JSON shapes, plus \<open>undefined\<close> for a property that is not there. Numbers are
  modelled as exact reals; the comparisons and the subtraction signs the client uses agree
  with IEEE doubles on the JSON numbers, only the rounding of a product can differ.
  An object is an association list in key order, the first binding of a key being the
  one a read returns.
\<close>

datatype jsval =
    JUndefined
  | JNull
  | JBool bool
  | JNum real
  | JStr string
  | JArr "jsval list"
  | JObj "(string \<times> jsval) list"

text \<open>The result of arithmetic: a finite number, an infinity, or NaN.\<close>

datatype jsnum = NaN | NegInf | Fin real | PosInf

text \<open>
  Three conversions belong to the JavaScript runtime and not to the repository: parsing a
  date string (\<open>Date.parse\<close>, \<open>None\<close> for an invalid date, otherwise milliseconds since the
  epoch), converting a string to a number, and printing a number that is not a moderate
  integer. They are parameters of the model.
\<close>

record runtime =
  parseDate :: "string \<Rightarrow> int option"
  strToNum :: "string \<Rightarrow> jsnum"
  fracToStr :: "real \<Rightarrow> string"

fun truthy :: "jsval \<Rightarrow> bool" where
  "truthy JUndefined = False"
| "truthy JNull = False"
| "truthy (JBool b) = b"
| "truthy (JNum r) = (r \<noteq> 0)"
| "truthy (JStr s) = (s \<noteq> [])"
| "truthy (JArr xs) = True"
| "truthy (JObj kvs) = True"

fun nullish :: "jsval \<Rightarrow> bool" where
  "nullish JUndefined = True"
| "nullish JNull = True"
| "nullish v = False"

text \<open>
  \<open>a || b\<close> on values that are already evaluated. Where the right operand can throw, and
  for \<open>a && b\<close>, the model writes the conditional out.
\<close>

definition js_or :: "jsval \<Rightarrow> jsval \<Rightarrow> jsval" where
  "js_or a b = (if truthy a then a else b)"

fun typeof :: "jsval \<Rightarrow> string" where
  "typeof JUndefined = ''undefined''"
| "typeof JNull = ''object''"
| "typeof (JBool b) = ''boolean''"
| "typeof (JNum r) = ''number''"
| "typeof (JStr s) = ''string''"
| "typeof (JArr xs) = ''object''"
| "typeof (JObj kvs) = ''object''"

text \<open>
  Reading a data field \<open>v.k\<close>. The keys the client reads (\<open>cattle\<close>, \<open>name\<close>, \<open>disease\<close>,
  \<open>severity\<close>, ...) are not defined on any built-in prototype, so on an array or a
  primitive the read gives \<open>undefined\<close>; on \<open>null\<close> and \<open>undefined\<close> it throws a TypeError,
  which is the result \<open>None\<close>. \<open>get_opt\<close> is the optional chain \<open>v?.k\<close>.
\<close>

fun peek :: "jsval \<Rightarrow> string \<Rightarrow> jsval" where
  "peek (JObj kvs) k = (case map_of kvs k of Some v \<Rightarrow> v | None \<Rightarrow> JUndefined)"
| "peek v k = JUndefined"

definition get :: "jsval \<Rightarrow> string \<Rightarrow> jsval option" where
  "get v k = (if nullish v then None else Some (peek v k))"

definition get_opt :: "jsval \<Rightarrow> string \<Rightarrow> jsval" where
  "get_opt v k = (if nullish v then JUndefined else peek v k)"

text \<open>The read \<open>v[0]\<close>.\<close>

fun index0 :: "jsval \<Rightarrow> jsval option" where
  "index0 JUndefined = None"
| "index0 JNull = None"
| "index0 (JArr xs) = Some (case xs of [] \<Rightarrow> JUndefined | x # _ \<Rightarrow> x)"
| "index0 (JStr s) = Some (case s of [] \<Rightarrow> JUndefined | c # _ \<Rightarrow> JStr [c])"
| "index0 (JObj kvs) = Some (peek (JObj kvs) ''0'')"
| "index0 v = Some JUndefined"

subsection \<open>Strings\<close>

text \<open>
  Strings are byte strings; \<open>toLowerCase\<close> and \<open>trim\<close> are modelled on ASCII, where the
  letters \<open>A\<close> to \<open>Z\<close> are lowered and blank, tab, line feed, vertical tab, form feed and
  carriage return are white space.
\<close>

definition toLowerChar :: "char \<Rightarrow> char" where
  "toLowerChar c =
     (case map_of (zip ''ABCDEFGHIJKLMNOPQRSTUVWXYZ'' ''abcdefghijklmnopqrstuvwxyz'') c of
        Some l \<Rightarrow> l | None \<Rightarrow> c)"

definition lower :: "string \<Rightarrow> string" where
  "lower s = map toLowerChar s"

text \<open>
  The method call \<open>v.toLowerCase()\<close>: only a string has the method, on anything else the
  call throws a TypeError.
\<close>

fun toLowerCase :: "jsval \<Rightarrow> string option" where
  "toLowerCase (JStr s) = Some (lower s)"
| "toLowerCase v = None"

definition is_space :: "char \<Rightarrow> bool" where
  "is_space c = (c \<in> set [CHR '' '', CHR 0x09, CHR 0x0A, CHR 0x0B, CHR 0x0C, CHR 0x0D])"

definition trim :: "string \<Rightarrow> string" where
  "trim s = rev (dropWhile is_space (rev (dropWhile is_space s)))"

text \<open>\<open>s.includes(q)\<close>: \<open>q\<close> occurs in \<open>s\<close> as a contiguous substring.\<close>

fun str_includes :: "string \<Rightarrow> string \<Rightarrow> bool" where
  "str_includes [] q = (q = [])"
| "str_includes (c # cs) q = (prefix q (c # cs) \<or> str_includes cs q)"

text \<open>\<open>parts.join(sep)\<close> on strings.\<close>

fun join :: "string \<Rightarrow> string list \<Rightarrow> string" where
  "join sep [] = []"
| "join sep [s] = s"
| "join sep (s # t # ss) = s @ sep @ join sep (t # ss)"

subsection \<open>Numbers\<close>

function show_nat :: "nat \<Rightarrow> string" where
  "show_nat n =
     (if n < 10 then [''0123456789'' ! n]
      else show_nat (n div 10) @ [''0123456789'' ! (n mod 10)])"
  by pat_completeness auto
termination
  by (relation "measure id") auto

declare show_nat.simps [simp del]

definition show_int :: "int \<Rightarrow> string" where
  "show_int i = (if i < 0 then CHR ''-'' # show_nat (nat (- i)) else show_nat (nat i))"

text \<open>
  \<open>Number.prototype.toString\<close>: an integer below \<open>10^21\<close> in magnitude prints as its decimal
  digits; every other number is left to the runtime.
\<close>

definition numToStr :: "runtime \<Rightarrow> real \<Rightarrow> string" where
  "numToStr rt r =
     (if r = of_int \<lfloor>r\<rfloor> \<and> \<bar>r\<bar> < 1000000000000000000000 then show_int \<lfloor>r\<rfloor>
      else fracToStr rt r)"

fun jsnumToStr :: "runtime \<Rightarrow> jsnum \<Rightarrow> string" where
  "jsnumToStr rt NaN = ''NaN''"
| "jsnumToStr rt PosInf = ''Infinity''"
| "jsnumToStr rt NegInf = ''-Infinity''"
| "jsnumToStr rt (Fin r) = numToStr rt r"

text \<open>
  \<open>String(v)\<close>, also what a template literal does to an interpolated value. An array
  prints its elements joined by commas, \<open>null\<close> and \<open>undefined\<close> elements as nothing.
\<close>

fun toString :: "runtime \<Rightarrow> jsval \<Rightarrow> string" where
  "toString rt JUndefined = ''undefined''"
| "toString rt JNull = ''null''"
| "toString rt (JBool b) = (if b then ''true'' else ''false'')"
| "toString rt (JNum r) = numToStr rt r"
| "toString rt (JStr s) = s"
| "toString rt (JArr xs) =
     join '','' (map (\<lambda>x. if nullish x then [] else toString rt x) xs)"
| "toString rt (JObj kvs) = ''[object Object]''"

text \<open>\<open>ToNumber\<close>, applied by \<open>-\<close> and \<open>*\<close> to their operands.\<close>

fun toNumber :: "runtime \<Rightarrow> jsval \<Rightarrow> jsnum" where
  "toNumber rt JUndefined = NaN"
| "toNumber rt JNull = Fin 0"
| "toNumber rt (JBool b) = Fin (if b then 1 else 0)"
| "toNumber rt (JNum r) = Fin r"
| "toNumber rt (JStr s) = strToNum rt s"
| "toNumber rt (JArr xs) = strToNum rt (toString rt (JArr xs))"
| "toNumber rt (JObj kvs) = strToNum rt (toString rt (JObj kvs))"

fun num_neg :: "jsnum \<Rightarrow> jsnum" where
  "num_neg NaN = NaN"
| "num_neg NegInf = PosInf"
| "num_neg PosInf = NegInf"
| "num_neg (Fin r) = Fin (- r)"

fun num_add :: "jsnum \<Rightarrow> jsnum \<Rightarrow> jsnum" where
  "num_add (Fin a) (Fin b) = Fin (a + b)"
| "num_add NaN y = NaN"
| "num_add x NaN = NaN"
| "num_add PosInf NegInf = NaN"
| "num_add NegInf PosInf = NaN"
| "num_add PosInf y = PosInf"
| "num_add NegInf y = NegInf"
| "num_add x PosInf = PosInf"
| "num_add x NegInf = NegInf"

definition num_sub :: "jsnum \<Rightarrow> jsnum \<Rightarrow> jsnum" where
  "num_sub x y = num_add x (num_neg y)"

fun num_sgn :: "jsnum \<Rightarrow> int option" where
  "num_sgn NaN = None"
| "num_sgn NegInf = Some (- 1)"
| "num_sgn PosInf = Some 1"
| "num_sgn (Fin r) = Some (if r < 0 then - 1 else if r = 0 then 0 else 1)"

fun num_mul :: "jsnum \<Rightarrow> jsnum \<Rightarrow> jsnum" where
  "num_mul (Fin a) (Fin b) = Fin (a * b)"
| "num_mul x y =
     (case (num_sgn x, num_sgn y) of
        (Some s, Some t) \<Rightarrow> if s * t = 0 then NaN else if 0 < s * t then PosInf else NegInf
      | _ \<Rightarrow> NaN)"

text \<open>\<open>v > 0\<close> on a number: false for NaN.\<close>

fun positive :: "jsnum \<Rightarrow> bool" where
  "positive (Fin r) = (0 < r)"
| "positive PosInf = True"
| "positive v = False"

text \<open>\<open>Math.round\<close>: the nearest integer, a half rounding up.\<close>

fun math_round :: "jsnum \<Rightarrow> jsnum" where
  "math_round (Fin r) = Fin (of_int \<lfloor>r + 1 / 2\<rfloor>)"
| "math_round v = v"

subsection \<open>Dates\<close>

text \<open>
  \<open>new Date(v)\<close> as its time value, \<open>None\<close> for an invalid date. A string is parsed, an
  array or object is first turned into its string, anything else is converted to a number
  of milliseconds, truncated, and rejected beyond 8.64e15. The difference of two dates is
  the difference of their time values, NaN when either is invalid.
\<close>

definition timeClip :: "jsnum \<Rightarrow> int option" where
  "timeClip n =
     (case n of
        Fin r \<Rightarrow> if \<bar>r\<bar> \<le> 8640000000000000
                   then Some (if 0 \<le> r then \<lfloor>r\<rfloor> else \<lceil>r\<rceil>) else None
      | _ \<Rightarrow> None)"

fun newDate :: "runtime \<Rightarrow> jsval \<Rightarrow> int option" where
  "newDate rt (JStr s) = parseDate rt s"
| "newDate rt (JArr xs) = parseDate rt (toString rt (JArr xs))"
| "newDate rt (JObj kvs) = parseDate rt (toString rt (JObj kvs))"
| "newDate rt v = timeClip (toNumber rt v)"

fun date_sub :: "int option \<Rightarrow> int option \<Rightarrow> jsnum" where
  "date_sub (Some s) (Some t) = Fin (of_int (s - t))"
| "date_sub x y = NaN"

subsection \<open>Arrays\<close>

text \<open>
  \<open>xs.filter(p)\<close> and \<open>xs.map(f)\<close> with a callback that may throw: the first exception
  ends the call.
\<close>

fun filterM :: "('a \<Rightarrow> bool option) \<Rightarrow> 'a list \<Rightarrow> 'a list option" where
  "filterM p [] = Some []"
| "filterM p (x # xs) =
     do { b \<leftarrow> p x; ys \<leftarrow> filterM p xs; Some (if b then x # ys else ys) }"

fun mapM :: "('a \<Rightarrow> 'b option) \<Rightarrow> 'a list \<Rightarrow> 'b list option" where
  "mapM f [] = Some []"
| "mapM f (x # xs) = do { y \<leftarrow> f x; ys \<leftarrow> mapM f xs; Some (y # ys) }"

text \<open>
  \<open>xs.sort(cmp)\<close>. The language requires the sort to be stable and, for a comparator that
  is a consistent ordering, fixes the result; the model is the stable insertion sort,
  which places an element after those it is strictly greater than (\<open>cmp x y > 0\<close>).
  An exception in the comparator ends the sort.
\<close>

fun insertM :: "('a \<Rightarrow> 'a \<Rightarrow> jsnum option) \<Rightarrow> 'a \<Rightarrow> 'a list \<Rightarrow> 'a list option" where
  "insertM cmp x [] = Some [x]"
| "insertM cmp x (y # ys) =
     do { c \<leftarrow> cmp x y;
          if positive c then do { zs \<leftarrow> insertM cmp x ys; Some (y # zs) }
          else Some (x # y # ys) }"

fun array_sort :: "('a \<Rightarrow> 'a \<Rightarrow> jsnum option) \<Rightarrow> 'a list \<Rightarrow> 'a list option" where
  "array_sort cmp [] = Some []"
| "array_sort cmp (x # xs) = do { ys \<leftarrow> array_sort cmp xs; insertM cmp x ys }"

text \<open>
  \<open>xs.slice(start, end)\<close>: a negative index counts from the end, and both are brought
  into range.
\<close>

definition slice :: "'a list \<Rightarrow> int \<Rightarrow> int \<Rightarrow> 'a list" where
  "slice xs start fin =
     (let n = int (length xs);
          k = (if start < 0 then max (n + start) 0 else min start n);
          e = (if fin < 0 then max (n + fin) 0 else min fin n)
      in take (nat (e - k)) (drop (nat k) xs))"


section \<open>The diagnosis history view (DiagnosisHistory.jsx)\<close>

subsection \<open>Display helpers\<close>

definition getCattleName :: "runtime \<Rightarrow> jsval \<Rightarrow> jsval option" where
  "getCattleName rt item =
     (if \<not> truthy item then Some (JStr ''Unknown'')
      else do {
        cattle \<leftarrow> get item ''cattle'';
        if truthy cattle \<and> typeof cattle = ''object'' then do {
          name \<leftarrow> get cattle ''name'';
          tag_number \<leftarrow> get cattle ''tag_number'';
          Some (js_or (js_or name tag_number) (JStr ''Unknown''))
        } else do {
          cattle_name \<leftarrow> get item ''cattle_name'';
          if truthy cattle_name then Some cattle_name
          else if truthy cattle \<and> typeof cattle = ''number''
            then Some (JStr (''Cattle #'' @ toString rt cattle))
          else Some (JStr ''Unknown'')
        }
      })"

definition getTopDisease :: "jsval \<Rightarrow> jsval option" where
  "getTopDisease item =
     (if \<not> truthy item then Some (JStr ''No prediction'')
      else do {
        ml \<leftarrow> get item ''_ml'';
        top_processed \<leftarrow> get item ''top_processed'';
        let topProcessed = js_or (get_opt ml ''top_processed'') top_processed;
        pd \<leftarrow> (if truthy topProcessed then get topProcessed ''disease'' else Some JUndefined);
        if truthy topProcessed \<and> truthy (js_or pd topProcessed) then Some (js_or pd topProcessed)
        else do {
          top_prediction \<leftarrow> get item ''top_prediction'';
          predictions \<leftarrow> get item ''predictions'';
          top \<leftarrow> (if truthy top_prediction then Some top_prediction
                  else if truthy predictions then index0 predictions
                  else Some predictions);
          d \<leftarrow> (if truthy top then get top ''disease'' else Some JUndefined);
          if truthy top \<and> truthy (js_or d top) then Some (js_or d top)
          else Some (JStr ''No prediction'')
        }
      })"

subsection \<open>Filtering and searching\<close>

text \<open>
  The callback of \<open>list.filter\<close>, for the lowered and trimmed query \<open>q\<close>. Both display
  strings are lowered before the tests, whatever the query is, and the severity is read
  only when the filter is not \<open>all\<close>.
\<close>

definition matches :: "runtime \<Rightarrow> string \<Rightarrow> string \<Rightarrow> jsval \<Rightarrow> bool option" where
  "matches rt q severityFilter item =
     do {
       n \<leftarrow> getCattleName rt item;
       cattleName \<leftarrow> toLowerCase n;
       d \<leftarrow> getTopDisease item;
       disease \<leftarrow> toLowerCase (js_or d (JStr []));
       let matchesSearch = (q = [] \<or> str_includes cattleName q \<or> str_includes disease q);
       matchesSeverity \<leftarrow>
         (if severityFilter = ''all'' then Some True
          else do {
            severity \<leftarrow> get item ''severity'';
            s \<leftarrow> toLowerCase (js_or severity (JStr []));
            Some (s = severityFilter)
          });
       Some (matchesSearch \<and> matchesSeverity)
     }"

definition filtered :: "runtime \<Rightarrow> jsval list \<Rightarrow> string \<Rightarrow> string \<Rightarrow> jsval list option" where
  "filtered rt list search severityFilter =
     (let q = lower (trim search) in filterM (matches rt q severityFilter) list)"

subsection \<open>Sorting\<close>

definition created_value :: "runtime \<Rightarrow> jsval \<Rightarrow> int option option" where
  "created_value rt a = do { c \<leftarrow> get a ''created_at''; Some (newDate rt (js_or c (JNum 0))) }"

definition confidence_value :: "runtime \<Rightarrow> jsval \<Rightarrow> jsnum option" where
  "confidence_value rt a = do { c \<leftarrow> get a ''confidence''; Some (toNumber rt (js_or c (JNum 0))) }"

text \<open>The four comparators, each reading its first-named operand first.\<close>

definition cmp_newest :: "runtime \<Rightarrow> jsval \<Rightarrow> jsval \<Rightarrow> jsnum option" where
  "cmp_newest rt a b = do { tb \<leftarrow> created_value rt b; ta \<leftarrow> created_value rt a; Some (date_sub tb ta) }"

definition cmp_oldest :: "runtime \<Rightarrow> jsval \<Rightarrow> jsval \<Rightarrow> jsnum option" where
  "cmp_oldest rt a b = do { ta \<leftarrow> created_value rt a; tb \<leftarrow> created_value rt b; Some (date_sub ta tb) }"

definition cmp_confidence_desc :: "runtime \<Rightarrow> jsval \<Rightarrow> jsval \<Rightarrow> jsnum option" where
  "cmp_confidence_desc rt a b =
     do { cb \<leftarrow> confidence_value rt b; ca \<leftarrow> confidence_value rt a; Some (num_sub cb ca) }"

definition cmp_confidence_asc :: "runtime \<Rightarrow> jsval \<Rightarrow> jsval \<Rightarrow> jsnum option" where
  "cmp_confidence_asc rt a b =
     do { ca \<leftarrow> confidence_value rt a; cb \<leftarrow> confidence_value rt b; Some (num_sub ca cb) }"

definition sorted_arr :: "runtime \<Rightarrow> jsval list \<Rightarrow> string \<Rightarrow> jsval list option" where
  "sorted_arr rt arr sortBy =
     (if sortBy = ''newest'' then array_sort (cmp_newest rt) arr
      else if sortBy = ''oldest'' then array_sort (cmp_oldest rt) arr
      else if sortBy = ''confidence_desc'' then array_sort (cmp_confidence_desc rt) arr
      else if sortBy = ''confidence_asc'' then array_sort (cmp_confidence_asc rt) arr
      else Some arr)"

subsection \<open>Pagination\<close>

text \<open>
  \<open>Math.max(1, Math.ceil(n / itemsPerPage))\<close>. With \<open>itemsPerPage = 0\<close> the quotient is
  \<open>Infinity\<close> or NaN and there is no page count: the result \<open>None\<close>. The page size of the
  view is always one of the four options of its select box.
\<close>

definition pageCount :: "nat \<Rightarrow> nat \<Rightarrow> nat option" where
  "pageCount n itemsPerPage =
     (if itemsPerPage = 0 then None
      else Some (max 1 (nat \<lceil>real n / real itemsPerPage\<rceil>)))"

definition visible :: "'a list \<Rightarrow> int \<Rightarrow> nat \<Rightarrow> 'a list" where
  "visible sorted_items page itemsPerPage =
     (let start = page * int itemsPerPage in slice sorted_items start (start + int itemsPerPage))"

text \<open>The body of the clamping effect, for the page count \<open>pc\<close> of the current render.\<close>

definition clamp_page :: "nat \<Rightarrow> int \<Rightarrow> int" where
  "clamp_page pc page = (if page \<ge> int pc then max 0 (int pc - 1) else page)"

subsection \<open>CSV export\<close>

text \<open>The row object built for one record; its keys are in the order of the literal.\<close>

definition export_row :: "runtime \<Rightarrow> jsval \<Rightarrow> (string \<times> jsval) list option" where
  "export_row rt d =
     do {
       ident \<leftarrow> get d ''id'';
       cattle \<leftarrow> getCattleName rt d;
       disease \<leftarrow> getTopDisease d;
       confidence \<leftarrow> get d ''confidence'';
       severity \<leftarrow> get d ''severity'';
       submitted_by \<leftarrow> get d ''submitted_by'';
       created_at \<leftarrow> get d ''created_at'';
       review_status \<leftarrow> get d ''review_status'';
       ml \<leftarrow> get d ''_ml'';
       reviewed_by \<leftarrow> get d ''reviewed_by'';
       username \<leftarrow> (if truthy reviewed_by then get reviewed_by ''username'' else Some reviewed_by);
       Some
         [(''id'', ident),
          (''cattle'', cattle),
          (''disease'', disease),
          (''confidence'',
             if truthy confidence
             then JStr (jsnumToStr rt (math_round (num_mul (toNumber rt confidence) (Fin 100))) @ ''%'')
             else JStr []),
          (''severity'', js_or severity (JStr [])),
          (''submitted_by'', js_or submitted_by (JStr [])),
          (''created_at'', js_or created_at (JStr [])),
          (''review_status'', js_or (js_or review_status (get_opt ml ''review_status'')) (JStr [])),
          (''reviewed_by'', js_or (js_or username reviewed_by) (JStr []))]
     }"

text \<open>\<open>s.replace(/"/g, '""')\<close> and the quoted field around it.\<close>

definition double_quotes :: "string \<Rightarrow> string" where
  "double_quotes s = concat (map (\<lambda>c. if c = CHR 0x22 then [CHR 0x22, CHR 0x22] else [c]) s)"

definition quote_field :: "string \<Rightarrow> string" where
  "quote_field s = [CHR 0x22] @ double_quotes s @ [CHR 0x22]"

definition csv_field :: "runtime \<Rightarrow> (string \<times> jsval) list \<Rightarrow> string \<Rightarrow> string" where
  "csv_field rt r k = quote_field (toString rt (js_or (peek (JObj r) k) (JStr [])))"

text \<open>
  What a click on the export button does: an alert, or the download of a file with a
  name and a content. \<open>now\<close> is \<open>new Date().toISOString()\<close> at the click.
\<close>

datatype export_effect = Alert string | Download string string

definition exportCsv :: "runtime \<Rightarrow> string \<Rightarrow> jsval list \<Rightarrow> export_effect option" where
  "exportCsv rt now sorted_items =
     do {
       rows \<leftarrow> mapM (export_row rt) sorted_items;
       Some (case rows of
           [] \<Rightarrow> Alert ''No rows to export''
         | r0 # _ \<Rightarrow>
             let keys = map fst r0;
                 csv = join [CHR 0x0A]
                         (join '','' keys # map (\<lambda>r. join '','' (map (csv_field rt r) keys)) rows)
             in Download (''diagnosis_history_'' @ slice now 0 10 @ ''.csv'') csv)
     }"

subsection \<open>View state, event handlers and the clamping effect\<close>

text \<open>The options of the page-size select box, and the number each stands for.\<close>

datatype page_size = P6 | P8 | P12 | P24

fun per_page :: "page_size \<Rightarrow> nat" where
  "per_page P6 = 6"
| "per_page P8 = 8"
| "per_page P12 = 12"
| "per_page P24 = 24"

record view_state =
  list :: "jsval list"
  loading :: bool
  search :: string
  severityFilter :: string
  sortBy :: string
  page :: int
  itemsPerPage :: page_size

definition initial_state :: view_state where
  "initial_state =
     \<lparr>list = [], loading = True, search = [], severityFilter = ''all'', sortBy = ''newest'',
      page = 0, itemsPerPage = P8\<rparr>"

text \<open>The values a render derives from the state; \<open>None\<close> when the render throws.\<close>

definition view_sorted :: "runtime \<Rightarrow> view_state \<Rightarrow> jsval list option" where
  "view_sorted rt st =
     do { f \<leftarrow> filtered rt (list st) (search st) (severityFilter st); sorted_arr rt f (sortBy st) }"

definition view_pageCount :: "runtime \<Rightarrow> view_state \<Rightarrow> nat option" where
  "view_pageCount rt st =
     do { s \<leftarrow> view_sorted rt st; pageCount (length s) (per_page (itemsPerPage st)) }"

definition view_visible :: "runtime \<Rightarrow> view_state \<Rightarrow> jsval list option" where
  "view_visible rt st =
     do { s \<leftarrow> view_sorted rt st; Some (visible s (page st) (per_page (itemsPerPage st))) }"

text \<open>
  The body of the view: the loading message, the empty-state message, or the cards of the
  visible slice.
\<close>

datatype body = LoadingMessage | EmptyMessage | Cards "jsval list"

definition view_body :: "runtime \<Rightarrow> view_state \<Rightarrow> body option" where
  "view_body rt st =
     do { v \<leftarrow> view_visible rt st;
          Some (if loading st then LoadingMessage
                else if length v = 0 then EmptyMessage else Cards v) }"

text \<open>
  A transition of the view: a setter called by the load effect, a change of one of the
  four controls, or a click on a pagination button.
\<close>

datatype event =
    SetList "jsval list"
  | SetLoading bool
  | SearchChange string
  | SeverityChange string
  | SortChange string
  | ItemsPerPageChange page_size
  | PrevClick
  | NextClick
  | PageClick int

text \<open>The numeric page buttons rendered for a page count and a current page.\<close>

definition page_buttons :: "nat \<Rightarrow> int \<Rightarrow> int list" where
  "page_buttons pc p = slice (map int [0..<pc]) (max 0 (p - 3)) (min (int pc) (p + 4))"

text \<open>
  The handlers, for the page count \<open>pc\<close> of the render that installed them. A disabled
  button, and a page button that is not rendered, cannot be clicked: the state stays.
\<close>

fun handle :: "nat \<Rightarrow> view_state \<Rightarrow> event \<Rightarrow> view_state" where
  "handle pc st (SetList xs) = st\<lparr>list := xs\<rparr>"
| "handle pc st (SetLoading b) = st\<lparr>loading := b\<rparr>"
| "handle pc st (SearchChange v) = st\<lparr>search := v, page := 0\<rparr>"
| "handle pc st (SeverityChange v) = st\<lparr>severityFilter := v, page := 0\<rparr>"
| "handle pc st (SortChange v) = st\<lparr>sortBy := v, page := 0\<rparr>"
| "handle pc st (ItemsPerPageChange n) = st\<lparr>itemsPerPage := n, page := 0\<rparr>"
| "handle pc st PrevClick =
     (if page st \<le> 0 then st else st\<lparr>page := max 0 (page st - 1)\<rparr>)"
| "handle pc st NextClick =
     (if page st \<ge> int pc - 1 then st else st\<lparr>page := min (int pc - 1) (page st + 1)\<rparr>)"
| "handle pc st (PageClick p) =
     (if p \<in> set (page_buttons pc (page st)) then st\<lparr>page := p\<rparr> else st)"

text \<open>
  The clamping effect after a render, and one transition: the handler, the render of the
  new state, the effect.
\<close>

definition clamp_effect :: "runtime \<Rightarrow> view_state \<Rightarrow> view_state option" where
  "clamp_effect rt st =
     do { pc \<leftarrow> view_pageCount rt st; Some (st\<lparr>page := clamp_page pc (page st)\<rparr>) }"

definition step :: "runtime \<Rightarrow> view_state \<Rightarrow> event \<Rightarrow> view_state option" where
  "step rt st ev = do { pc \<leftarrow> view_pageCount rt st; clamp_effect rt (handle pc st ev) }"

fun run :: "runtime \<Rightarrow> view_state \<Rightarrow> event list \<Rightarrow> view_state option" where
  "run rt st [] = Some st"
| "run rt st (ev # evs) = do { st' \<leftarrow> step rt st ev; run rt st' evs }"

text \<open>
  A click on the export button: it exports the whole sorted set of the render and calls
  no setter, so the state is handed back as it was.
\<close>

definition export_click :: "runtime \<Rightarrow> string \<Rightarrow> view_state \<Rightarrow> (export_effect \<times> view_state) option" where
  "export_click rt now st =
     do { s \<leftarrow> view_sorted rt st; e \<leftarrow> exportCsv rt now s; Some (e, st) }"

subsection \<open>The load effect\<close>

text \<open>
  An awaited request settles with a response body or is rejected. What the rest of the
  async function does is a sequence of effects: calls of \<open>console.error\<close> and calls of
  state setters. \<open>mounted\<close> is the value of the flag when the request settles: the cleanup
  of the effect has cleared it if the component was unmounted in between.
\<close>

datatype 'a outcome = Resolved 'a | Rejected

datatype 'c effect = Console string | Set 'c

definition setter_calls :: "'c effect list \<Rightarrow> 'c list" where
  "setter_calls es = concat (map (\<lambda>e. case e of Set c \<Rightarrow> [c] | Console m \<Rightarrow> []) es)"


fun as_array :: "jsval \<Rightarrow> jsval list" where
  "as_array (JArr xs) = xs"
| "as_array v = []"

definition load_begin :: "event effect list" where
  "load_begin = [Set (SetLoading True)]"

definition load_settle :: "bool \<Rightarrow> jsval outcome \<Rightarrow> event effect list" where
  "load_settle mounted res =
     (case res of
        Resolved data \<Rightarrow> (if \<not> mounted then [] else [Set (SetList (as_array data))])
      | Rejected \<Rightarrow>
          [Console ''Failed to load diagnoses''] @ (if mounted then [Set (SetList [])] else []))
     @ (if mounted then [Set (SetLoading False)] else [])"

section \<open>The dashboard (Dashboard.jsx)\<close>

record dash_state =
  cattle :: "jsval list"
  diagnoses :: "jsval list"
  dash_loading :: bool

datatype dash_call = SetCattle "jsval list" | SetDiagnoses "jsval list" | SetDashLoading bool

fun dash_apply :: "dash_state \<Rightarrow> dash_call \<Rightarrow> dash_state" where
  "dash_apply st (SetCattle xs) = st\<lparr>cattle := xs\<rparr>"
| "dash_apply st (SetDiagnoses xs) = st\<lparr>diagnoses := xs\<rparr>"
| "dash_apply st (SetDashLoading b) = st\<lparr>dash_loading := b\<rparr>"

text \<open>The comparator of the dashboard's sort, newest first, without a default date.\<close>

definition dash_cmp :: "runtime \<Rightarrow> jsval \<Rightarrow> jsval \<Rightarrow> jsnum option" where
  "dash_cmp rt a b =
     do { cb \<leftarrow> get b ''created_at''; ca \<leftarrow> get a ''created_at'';
          Some (date_sub (newDate rt cb) (newDate rt ca)) }"

text \<open>
  \<open>Promise.all\<close> of the two requests is rejected as soon as one of them is. An exception
  of the comparator, thrown inside the \<open>try\<close> after the cattle were stored, is caught by
  the same \<open>catch\<close>.
\<close>

definition dash_catch :: "dash_call effect list" where
  "dash_catch =
     [Console ''Failed to load dashboard data'', Set (SetCattle []), Set (SetDiagnoses [])]"

definition dash_load_begin :: "dash_call effect list" where
  "dash_load_begin = [Set (SetDashLoading True)]"

definition dash_load_settle ::
    "runtime \<Rightarrow> bool \<Rightarrow> jsval outcome \<Rightarrow> jsval outcome \<Rightarrow> dash_call effect list" where
  "dash_load_settle rt cancelled cRes dRes =
     (case (cRes, dRes) of
        (Resolved cData, Resolved dData) \<Rightarrow>
          if cancelled then []
          else Set (SetCattle (as_array cData)) #
               (case dData of
                  JArr ds \<Rightarrow>
                    (case array_sort (dash_cmp rt) ds of
                       Some sorted_ds \<Rightarrow> [Set (SetDiagnoses sorted_ds)]
                     | None \<Rightarrow> dash_catch)
                | _ \<Rightarrow> [Set (SetDiagnoses [])])
      | _ \<Rightarrow> dash_catch)
     @ (if \<not> cancelled then [Set (SetDashLoading False)] else [])"

section \<open>Notions used in the statements\<close>

subsection \<open>A runtime for worked examples\<close>

text \<open>
  A runtime that parses three timestamps to the time values \<open>Date.parse\<close> gives them,
  and three records. The examples use no other date string, no numeric string and no
  fractional number in a position where it would be printed.
\<close>

definition demo_runtime :: runtime where
  "demo_runtime =
     \<lparr>parseDate = (\<lambda>s. if s = ''1969-12-31T23:59:59.000Z'' then Some (- 1000)
                         else if s = ''2024-05-01T00:00:00.000Z'' then Some 1714521600000
                         else if s = ''2024-05-02T00:00:00.000Z'' then Some 1714608000000
                         else None),
      strToNum = (\<lambda>s. NaN),
      fracToStr = (\<lambda>r. ''?'')\<rparr>"

definition demo_record :: jsval where
  "demo_record =
     JObj [(''id'', JNum 1), (''cattle'', JObj [(''name'', JStr ''Bossy'')]),
           (''confidence'', JNum 0.9), (''created_at'', JStr ''2024-05-01T00:00:00.000Z'')]"


definition demo_plain :: jsval where
  "demo_plain =
     JObj [(''id'', JNum 2), (''cattle'', JNum 8), (''created_at'', JStr ''2024-05-01T00:00:00.000Z'')]"

subsection \<open>Sort keys\<close>

text \<open>
  The number by which a record is ordered under a sort option \<open>sb\<close>: the time value of
  the date built from \<open>created_at || 0\<close>, or the number \<open>confidence || 0\<close>. There is none
  (\<open>None\<close>) when the record is \<open>null\<close>, when the date is invalid, or when the confidence
  does not convert to a finite number. \<open>in_order\<close> is the order the option asks of two
  keys: descending for \<open>newest\<close> and \<open>confidence_desc\<close>, ascending for the other two.
\<close>

definition sort_field :: "string \<Rightarrow> string" where
  "sort_field sb =
     (if sb = ''newest'' \<or> sb = ''oldest'' then ''created_at'' else ''confidence'')"

definition order_key :: "runtime \<Rightarrow> string \<Rightarrow> jsval \<Rightarrow> real option" where
  "order_key rt sb x =
     (if sb = ''newest'' \<or> sb = ''oldest''
      then (case created_value rt x of Some (Some t) \<Rightarrow> Some (real_of_int t) | _ \<Rightarrow> None)
      else (case confidence_value rt x of Some (Fin c) \<Rightarrow> Some c | _ \<Rightarrow> None))"

definition in_order :: "string \<Rightarrow> real option \<Rightarrow> real option \<Rightarrow> bool" where
  "in_order sb a b =
     (case (a, b) of
        (Some u, Some v) \<Rightarrow>
          if sb = ''newest'' \<or> sb = ''confidence_desc'' then v \<le> u else u \<le> v
      | _ \<Rightarrow> False)"

text \<open>
  The order as the specification words it for \<open>oldest\<close>: a record without a timestamp
  counts as earlier than every record with one.
\<close>

definition claimed_time :: "runtime \<Rightarrow> jsval \<Rightarrow> int option" where
  "claimed_time rt x =
     (if truthy (peek x ''created_at'') then newDate rt (peek x ''created_at'') else None)"

definition claimed_oldest_first :: "runtime \<Rightarrow> jsval \<Rightarrow> jsval \<Rightarrow> bool" where
  "claimed_oldest_first rt x y =
     (case (claimed_time rt x, claimed_time rt y) of
        (None, _) \<Rightarrow> True
      | (Some s, None) \<Rightarrow> False
      | (Some s, Some t) \<Rightarrow> s \<le> t)"

subsection \<open>Display strings of a well-formed record\<close>

text \<open>
  The display name and the display disease of a record, as strings. A nested cattle
  object gives its name, else its tag number, else \<open>Unknown\<close>; without a nested object
  the flat \<open>cattle_name\<close> is used when there is one, else \<open>Cattle #id\<close> for a numeric
  cattle reference, else \<open>Unknown\<close>. The disease is that of the processed override
  (\<open>_ml.top_processed\<close>, else \<open>top_processed\<close>), else of \<open>top_prediction\<close>, else of the first
  prediction, else \<open>No prediction\<close>; a prediction is a disease name or an object with a
  \<open>disease\<close> field.
\<close>

definition text_of :: "jsval \<Rightarrow> string" where
  "text_of v = (case v of JStr s \<Rightarrow> s | _ \<Rightarrow> [])"

definition disease_name :: "jsval \<Rightarrow> string" where
  "disease_name v = (case v of JStr s \<Rightarrow> s | _ \<Rightarrow> text_of (peek v ''disease''))"

definition display_name :: "runtime \<Rightarrow> jsval \<Rightarrow> string" where
  "display_name rt item =
     (case peek item ''cattle'' of
        JObj c \<Rightarrow>
          if text_of (peek (JObj c) ''name'') \<noteq> [] then text_of (peek (JObj c) ''name'')
          else if text_of (peek (JObj c) ''tag_number'') \<noteq> [] then text_of (peek (JObj c) ''tag_number'')
          else ''Unknown''
      | JArr xs \<Rightarrow> ''Unknown''
      | other \<Rightarrow>
          if text_of (peek item ''cattle_name'') \<noteq> [] then text_of (peek item ''cattle_name'')
          else (case other of
                  JNum n \<Rightarrow> if n \<noteq> 0 then ''Cattle #'' @ numToStr rt n else ''Unknown''
                | _ \<Rightarrow> ''Unknown''))"

definition display_disease :: "jsval \<Rightarrow> string" where
  "display_disease item =
     (let processed = js_or (get_opt (peek item ''_ml'') ''top_processed'') (peek item ''top_processed'');
          top = js_or (peek item ''top_prediction'')
                  (case peek item ''predictions'' of JArr (p # ps) \<Rightarrow> p | _ \<Rightarrow> JUndefined)
      in if truthy processed then disease_name processed
         else if truthy top then disease_name top
         else ''No prediction'')"

definition display_match :: "runtime \<Rightarrow> string \<Rightarrow> string \<Rightarrow> jsval \<Rightarrow> bool" where
  "display_match rt query sev item =
     (let q = lower (trim query) in
        (q = [] \<or> str_includes (lower (display_name rt item)) q
                \<or> str_includes (lower (display_disease item)) q)
        \<and> (sev = ''all'' \<or> lower (text_of (peek item ''severity'')) = lower sev))"

definition optional_text :: "jsval \<Rightarrow> bool" where
  "optional_text v = (case v of JUndefined \<Rightarrow> True | JNull \<Rightarrow> True | JStr s \<Rightarrow> True | _ \<Rightarrow> False)"

definition prediction_like :: "jsval \<Rightarrow> bool" where
  "prediction_like v =
     (case v of
        JUndefined \<Rightarrow> True
      | JNull \<Rightarrow> True
      | JStr s \<Rightarrow> True
      | JObj kvs \<Rightarrow> (case peek (JObj kvs) ''disease'' of JStr d \<Rightarrow> d \<noteq> [] | _ \<Rightarrow> False)
      | _ \<Rightarrow> False)"

definition wf_record :: "jsval \<Rightarrow> bool" where
  "wf_record item =
     (case item of
        JObj kvs \<Rightarrow>
          (case peek item ''cattle'' of
             JUndefined \<Rightarrow> True
           | JNull \<Rightarrow> True
           | JNum n \<Rightarrow> True
           | JObj c \<Rightarrow> optional_text (peek (JObj c) ''name'') \<and> optional_text (peek (JObj c) ''tag_number'')
           | _ \<Rightarrow> False)
          \<and> optional_text (peek item ''cattle_name'')
          \<and> (case peek item ''_ml'' of
                JUndefined \<Rightarrow> True
              | JNull \<Rightarrow> True
              | JObj m \<Rightarrow> prediction_like (peek (JObj m) ''top_processed'')
              | _ \<Rightarrow> False)
          \<and> prediction_like (peek item ''top_processed'')
          \<and> prediction_like (peek item ''top_prediction'')
          \<and> (case peek item ''predictions'' of
                JUndefined \<Rightarrow> True
              | JNull \<Rightarrow> True
              | JArr ps \<Rightarrow> (case ps of [] \<Rightarrow> True | p # _ \<Rightarrow> prediction_like p)
              | _ \<Rightarrow> False)
          \<and> optional_text (peek item ''severity'')
      | _ \<Rightarrow> False)"

text \<open>
  The display name as the specification words it: the nested cattle object's name, then
  its tag number, then \<open>Cattle #id\<close>, else \<open>Unknown\<close>, with no flat name in the chain.
\<close>

definition claimed_display_name :: "runtime \<Rightarrow> jsval \<Rightarrow> string" where
  "claimed_display_name rt item =
     (let c = peek item ''cattle'' in
        if text_of (peek c ''name'') \<noteq> [] then text_of (peek c ''name'')
        else if text_of (peek c ''tag_number'') \<noteq> [] then text_of (peek c ''tag_number'')
        else (case c of JNum n \<Rightarrow> ''Cattle #'' @ numToStr rt n | _ \<Rightarrow> ''Unknown''))"

definition claimed_match :: "runtime \<Rightarrow> string \<Rightarrow> string \<Rightarrow> jsval \<Rightarrow> bool" where
  "claimed_match rt query sev item =
     (let q = lower (trim query) in
        (q = [] \<or> str_includes (lower (claimed_display_name rt item)) q
                \<or> str_includes (lower (display_disease item)) q)
        \<and> (sev = ''all'' \<or> lower (text_of (peek item ''severity'')) = lower sev))"

subsection \<open>Records and events that cannot make a render throw\<close>

text \<open>
  A record the whole pipeline accepts: well-formed for the display helpers and with both
  sort keys. The only event that brings data into the view is the setter of the list.
\<close>

definition record_ok :: "runtime \<Rightarrow> jsval \<Rightarrow> bool" where
  "record_ok rt x =
     (wf_record x \<and> order_key rt ''newest'' x \<noteq> None \<and> order_key rt ''confidence_asc'' x \<noteq> None)"

definition event_ok :: "runtime \<Rightarrow> event \<Rightarrow> bool" where
  "event_ok rt ev = (case ev of SetList xs \<Rightarrow> list_all (record_ok rt) xs | _ \<Rightarrow> True)"

text \<open>
  The page index the specification expects after a change of the page size, for the new
  page count: the last valid page when the current index is at or beyond the count.
\<close>

definition claimed_resize_page :: "nat \<Rightarrow> int \<Rightarrow> int" where
  "claimed_resize_page new_pc p = (if p \<ge> int new_pc then int new_pc - 1 else p)"

subsection \<open>The columns of the export\<close>


section \<open>Properties of the pagination\<close>

lemma slice_take_drop:
  assumes "0 \<le> a" "a \<le> b"
  shows "slice xs a b = take (nat (b - a)) (drop (nat a) xs)"
proof (cases "a \<le> int (length xs)")
  case True
  with assms show ?thesis
    by (auto simp: slice_def Let_def min_def intro!: take_all_iff[THEN iffD2] simp: nat_diff_distrib)
next
  case False
  with assms show ?thesis
    by (auto simp: slice_def Let_def min_def)
qed

lemma visible_take_drop: "visible xs (int i) p = take p (drop (i * p) xs)"
  using slice_take_drop[of "int i * int p" "int i * int p + int p" xs]
  by (simp add: visible_def Let_def nat_mult_distrib)

lemma ceil_div_bounds:
  fixes n p :: nat
  assumes "0 < p"
  shows "n \<le> ((n + p - 1) div p) * p" and "((n + p - 1) div p) * p < n + p"
proof -
  let ?q = "(n + p - 1) div p"
  have eq: "?q * p + (n + p - 1) mod p = n + p - 1"
    by simp
  have r: "(n + p - 1) mod p < p"
    using assms by simp
  show "n \<le> ?q * p" using eq r assms by linarith
  show "?q * p < n + p" using eq assms by linarith
qed

lemma ceiling_nat_div:
  fixes n p :: nat
  assumes "0 < p"
  shows "nat \<lceil>real n / real p\<rceil> = (n + p - 1) div p"
proof -
  let ?q = "(n + p - 1) div p"
  have rp: "0 < real p" using assms by simp
  have up: "real n \<le> real (?q * p)"
    using ceil_div_bounds(1)[OF assms, of n] by (simp only: of_nat_le_iff)
  have lo: "real (?q * p) < real (n + p)"
    using ceil_div_bounds(2)[OF assms, of n] by (simp only: of_nat_less_iff)
  have "real n / real p \<le> real ?q"
    using up rp by (simp add: divide_le_eq)
  moreover have "real ?q - 1 < real n / real p"
    using lo rp by (simp add: less_divide_eq algebra_simps)
  ultimately have "\<lceil>real n / real p\<rceil> = int ?q"
    by (intro ceiling_unique) simp_all
  then show ?thesis by simp
qed

lemma pages_cover:
  fixes n p :: nat
  assumes "0 < p"
  shows "n \<le> max 1 ((n + p - 1) div p) * p"
proof -
  have "n \<le> ((n + p - 1) div p) * p" by (rule ceil_div_bounds(1)[OF assms])
  also have "\<dots> \<le> max 1 ((n + p - 1) div p) * p" by simp
  finally show ?thesis .
qed

lemma concat_pages: "concat (map (\<lambda>i. take p (drop (i * p) xs)) [0..<k]) = take (k * p) xs"
proof (induction k)
  case 0
  show ?case by simp
next
  case (Suc k)
  have "take (Suc k * p) xs = take (k * p + p) xs" by (simp add: add.commute)
  also have "\<dots> = take (k * p) xs @ take p (drop (k * p) xs)" by (rule take_add)
  finally show ?case using Suc.IH by simp
qed

lemma pageCount_ceil:
  "1 \<le> p \<Longrightarrow> pageCount n p = Some (max 1 ((n + p - 1) div p))"
  by (simp add: pageCount_def ceiling_nat_div)

text \<open>
  Claim C3. For a sorted collection of length \<open>n\<close> and a page size \<open>p \<ge> 1\<close>, the page
  count is \<open>ceil(n / p)\<close> and at least 1, the visible slice of page \<open>i\<close> is the \<open>p\<close>
  elements from position \<open>i * p\<close> on, and the slices of the pages \<open>0 .. pageCount - 1\<close>,
  one after the other, are the sorted collection itself: every element appears exactly
  once, in order.
\<close>

theorem pagination_partition:
  fixes xs :: "'a list"
  assumes "1 \<le> p"
  shows "\<exists>pc. pageCount (length xs) p = Some pc
           \<and> int pc = max 1 \<lceil>real (length xs) / real p\<rceil>
           \<and> pc = max 1 ((length xs + p - 1) div p)
           \<and> (\<forall>i. visible xs (int i) p = take p (drop (i * p) xs))
           \<and> concat (map (\<lambda>i. visible xs (int i) p) [0..<pc]) = xs"
proof -
  let ?pc = "max 1 ((length xs + p - 1) div p)"
  have p: "0 < p" using assms by simp
  have 1: "pageCount (length xs) p = Some ?pc" using assms by (rule pageCount_ceil)
  have 2: "int ?pc = max 1 \<lceil>real (length xs) / real p\<rceil>"
    using ceiling_nat_div[OF p, of "length xs"] by (simp add: max_def) linarith
  have "concat (map (\<lambda>i. visible xs (int i) p) [0..<?pc]) = take (?pc * p) xs"
    by (simp only: visible_take_drop concat_pages)
  also have "\<dots> = xs" using pages_cover[OF p, of "length xs"] by simp
  finally have 3: "concat (map (\<lambda>i. visible xs (int i) p) [0..<?pc]) = xs" .
  show ?thesis using 1 2 3 visible_take_drop by blast
qed

theorem pagination_partition_witness:
  "(1::nat) \<le> 2 \<and> pageCount (length [10, 20, 30, 40, 50 :: nat]) 2 = Some 3
     \<and> visible [10, 20, 30, 40, 50 :: nat] 2 2 = [50]
     \<and> concat (map (\<lambda>i. visible [10, 20, 30, 40, 50 :: nat] (int i) 2) [0..<3]) = [10, 20, 30, 40, 50]"
proof -
  have h: "(1::nat) \<le> 2" by simp
  obtain pc where pc: "pageCount (length [10, 20, 30, 40, 50 :: nat]) 2 = Some pc"
      "pc = max 1 ((length [10, 20, 30, 40, 50 :: nat] + 2 - 1) div 2)"
      "\<forall>i. visible [10, 20, 30, 40, 50 :: nat] (int i) 2 = take 2 (drop (i * 2) [10, 20, 30, 40, 50])"
      "concat (map (\<lambda>i. visible [10, 20, 30, 40, 50 :: nat] (int i) 2) [0..<pc]) = [10, 20, 30, 40, 50]"
    using pagination_partition[OF h, of "[10, 20, 30, 40, 50 :: nat]"] by blast
  have 3: "pc = 3" using pc(2) by simp
  have v: "visible [10, 20, 30, 40, 50 :: nat] 2 2 = [50]"
    using pc(3)[rule_format, of 2] by simp
  show ?thesis using h pc(1) pc(4) v unfolding 3 by simp
qed

section \<open>Properties of the sort\<close>

lemma insertM_keyed:
  fixes key :: "'a \<Rightarrow> real"
  assumes "\<forall>y\<in>set ys. \<exists>c. cmp x y = Some c \<and> (positive c \<longleftrightarrow> key y < key x)"
  shows "\<exists>zs. insertM cmp x ys = Some zs
           \<and> mset zs = add_mset x (mset ys)
           \<and> (sorted (map key ys) \<longrightarrow> sorted (map key zs))
           \<and> (\<forall>k. filter (\<lambda>y. key y = k) zs = filter (\<lambda>y. key y = k) (x # ys))"
  using assms
proof (induction ys)
  case Nil
  show ?case by simp
next
  case (Cons y ys)
  from Cons.prems obtain c where c: "cmp x y = Some c" "positive c \<longleftrightarrow> key y < key x"
    by auto
  show ?case
  proof (cases "positive c")
    case False
    with c have le: "key x \<le> key y" by simp
    have "insertM cmp x (y # ys) = Some (x # y # ys)" using c False by simp
    moreover have "sorted (map key (y # ys)) \<longrightarrow> sorted (map key (x # y # ys))"
      using le by auto
    ultimately show ?thesis by simp
  next
    case True
    with c have lt: "key y < key x" by simp
    from Cons.prems have "\<forall>y\<in>set ys. \<exists>c. cmp x y = Some c \<and> (positive c \<longleftrightarrow> key y < key x)"
      by simp
    from Cons.IH[OF this] obtain zs where zs: "insertM cmp x ys = Some zs"
        "mset zs = add_mset x (mset ys)"
        "sorted (map key ys) \<longrightarrow> sorted (map key zs)"
        "\<forall>k. filter (\<lambda>y. key y = k) zs = filter (\<lambda>y. key y = k) (x # ys)"
      by blast
    have res: "insertM cmp x (y # ys) = Some (y # zs)" using c True zs(1) by simp
    have m: "mset (y # zs) = add_mset x (mset (y # ys))" using zs(2) by simp
    have s: "sorted (map key (y # ys)) \<longrightarrow> sorted (map key (y # zs))"
    proof
      assume a: "sorted (map key (y # ys))"
      then have "sorted (map key zs)" using zs(3) by simp
      moreover have "\<forall>z\<in>set zs. key y \<le> key z"
      proof
        fix z assume "z \<in> set zs"
        then have "z \<in># mset zs" by simp
        then have "z = x \<or> z \<in> set ys" unfolding zs(2) by auto
        then show "key y \<le> key z" using lt a by auto
      qed
      ultimately show "sorted (map key (y # zs))" by simp
    qed
    have f: "\<forall>k. filter (\<lambda>y. key y = k) (y # zs) = filter (\<lambda>y. key y = k) (x # y # ys)"
      using zs(4) lt by auto
    show ?thesis using res m s f by blast
  qed
qed

lemma array_sort_keyed:
  fixes key :: "'a \<Rightarrow> real"
  assumes "\<forall>x\<in>set xs. \<forall>y\<in>set xs. \<exists>c. cmp x y = Some c \<and> (positive c \<longleftrightarrow> key y < key x)"
  shows "\<exists>ys. array_sort cmp xs = Some ys
           \<and> mset ys = mset xs
           \<and> sorted (map key ys)
           \<and> (\<forall>k. filter (\<lambda>y. key y = k) ys = filter (\<lambda>y. key y = k) xs)"
  using assms
proof (induction xs)
  case Nil
  show ?case by simp
next
  case (Cons x xs)
  from Cons.prems
  have "\<forall>x\<in>set xs. \<forall>y\<in>set xs. \<exists>c. cmp x y = Some c \<and> (positive c \<longleftrightarrow> key y < key x)"
    by simp
  from Cons.IH[OF this] obtain ys where ys: "array_sort cmp xs = Some ys" "mset ys = mset xs"
      "sorted (map key ys)" "\<forall>k. filter (\<lambda>y. key y = k) ys = filter (\<lambda>y. key y = k) xs"
    by blast
  have "set ys = set xs" using ys(2) by (metis set_mset_mset)
  with Cons.prems
  have "\<forall>y\<in>set ys. \<exists>c. cmp x y = Some c \<and> (positive c \<longleftrightarrow> key y < key x)"
    by simp
  from insertM_keyed[of ys cmp x key, OF this] ys(3) obtain zs where zs: "insertM cmp x ys = Some zs"
      "mset zs = add_mset x (mset ys)" "sorted (map key zs)"
      "\<forall>k. filter (\<lambda>y. key y = k) zs = filter (\<lambda>y. key y = k) (x # ys)"
    by blast
  have "array_sort cmp (x # xs) = Some zs" using ys(1) zs(1) by simp
  moreover have "mset zs = mset (x # xs)" using zs(2) ys(2) by simp
  moreover have "\<forall>k. filter (\<lambda>y. key y = k) zs = filter (\<lambda>y. key y = k) (x # xs)"
    using zs(4) ys(4) by simp
  ultimately show ?case using zs(3) by blast
qed

text \<open>
  For a comparator that is the sign of a difference of keys, the result of the modelled
  sort is the one stable sort by the key: it does not depend on the insertion order the
  model uses.
\<close>

lemma array_sort_is_sort_key:
  fixes key :: "'a \<Rightarrow> real"
  assumes "\<forall>x\<in>set xs. \<forall>y\<in>set xs. \<exists>c. cmp x y = Some c \<and> (positive c \<longleftrightarrow> key y < key x)"
  shows "array_sort cmp xs = Some (sort_key key xs)"
proof -
  from array_sort_keyed[of xs cmp key, OF assms] obtain ys where
    ys: "array_sort cmp xs = Some ys" "mset ys = mset xs" "sorted (map key ys)"
      "\<forall>k. filter (\<lambda>y. key y = k) ys = filter (\<lambda>y. key y = k) xs"
    by blast
  have "sort_key key xs = ys"
  proof (rule properties_for_sort_key[OF ys(2) _ ys(3)])
    fix k
    show "filter (\<lambda>x. key k = key x) ys = filter (\<lambda>x. key k = key x) xs"
      using ys(4)[rule_format, of "key k"] by (simp add: eq_commute)
  qed
  with ys(1) show ?thesis by simp
qed

lemma cmp_oldest_keyed:
  assumes "order_key rt ''oldest'' x = Some u" "order_key rt ''oldest'' y = Some v"
  shows "\<exists>c. cmp_oldest rt x y = Some c \<and> (positive c \<longleftrightarrow> v < u)"
  using assms
  by (auto simp: order_key_def cmp_oldest_def split: option.splits)

lemma cmp_newest_keyed:
  assumes "order_key rt ''newest'' x = Some u" "order_key rt ''newest'' y = Some v"
  shows "\<exists>c. cmp_newest rt x y = Some c \<and> (positive c \<longleftrightarrow> u < v)"
  using assms
  by (auto simp: order_key_def cmp_newest_def split: option.splits)

lemma cmp_confidence_asc_keyed:
  assumes "order_key rt ''confidence_asc'' x = Some u" "order_key rt ''confidence_asc'' y = Some v"
  shows "\<exists>c. cmp_confidence_asc rt x y = Some c \<and> (positive c \<longleftrightarrow> v < u)"
  using assms
  by (auto simp: order_key_def cmp_confidence_asc_def num_sub_def split: option.splits jsnum.splits)

lemma cmp_confidence_desc_keyed:
  assumes "order_key rt ''confidence_desc'' x = Some u" "order_key rt ''confidence_desc'' y = Some v"
  shows "\<exists>c. cmp_confidence_desc rt x y = Some c \<and> (positive c \<longleftrightarrow> u < v)"
  using assms
  by (auto simp: order_key_def cmp_confidence_desc_def num_sub_def split: option.splits jsnum.splits)

lemma sorted_arr_core:
  fixes s :: real
  assumes s: "s = 1 \<or> s = - 1"
    and keys: "\<forall>x\<in>set arr. order_key rt sb x \<noteq> None"
    and cmp: "\<And>x y u v. order_key rt sb x = Some u \<Longrightarrow> order_key rt sb y = Some v
                \<Longrightarrow> \<exists>c. cmp x y = Some c \<and> (positive c \<longleftrightarrow> s * v < s * u)"
  shows "\<exists>out. array_sort cmp arr = Some out \<and> mset out = mset arr
           \<and> sorted_wrt (\<lambda>x y. \<exists>u v. order_key rt sb x = Some u \<and> order_key rt sb y = Some v
                                  \<and> s * u \<le> s * v) out
           \<and> (\<forall>k. filter (\<lambda>x. order_key rt sb x = k) out = filter (\<lambda>x. order_key rt sb x = k) arr)"
proof -
  define key where "key = (\<lambda>x. s * (case order_key rt sb x of Some u \<Rightarrow> u | None \<Rightarrow> 0))"
  have ex: "\<exists>u. order_key rt sb x = Some u" if "x \<in> set arr" for x
    using keys that by auto
  have key_eq: "key x = s * u" if "order_key rt sb x = Some u" for x u
    using that by (simp add: key_def)
  have "\<forall>x\<in>set arr. \<forall>y\<in>set arr. \<exists>c. cmp x y = Some c \<and> (positive c \<longleftrightarrow> key y < key x)"
  proof (intro ballI)
    fix x y assume "x \<in> set arr" "y \<in> set arr"
    then obtain u v where uv: "order_key rt sb x = Some u" "order_key rt sb y = Some v"
      using ex by blast
    from cmp[OF uv] show "\<exists>c. cmp x y = Some c \<and> (positive c \<longleftrightarrow> key y < key x)"
      by (simp add: key_eq[OF uv(1)] key_eq[OF uv(2)])
  qed
  from array_sort_keyed[of arr cmp key, OF this]
  obtain out where out: "array_sort cmp arr = Some out" "mset out = mset arr"
      "sorted (map key out)"
      "\<forall>k. filter (\<lambda>y. key y = k) out = filter (\<lambda>y. key y = k) arr"
    by blast
  have set_eq: "set out = set arr" using out(2) by (metis set_mset_mset)
  have "sorted_wrt (\<lambda>x y. key x \<le> key y) out"
    using out(3) by (simp add: sorted_map)
  then have srt: "sorted_wrt (\<lambda>x y. \<exists>u v. order_key rt sb x = Some u \<and> order_key rt sb y = Some v
                                  \<and> s * u \<le> s * v) out"
  proof (rule sorted_wrt_mono_rel[rotated])
    fix x y assume "x \<in> set out" "y \<in> set out" and le: "key x \<le> key y"
    then obtain u v where uv: "order_key rt sb x = Some u" "order_key rt sb y = Some v"
      using ex set_eq by blast
    with le show "\<exists>u v. order_key rt sb x = Some u \<and> order_key rt sb y = Some v \<and> s * u \<le> s * v"
      by (simp add: key_eq[OF uv(1)] key_eq[OF uv(2)])
  qed
  have stab: "filter (\<lambda>x. order_key rt sb x = k) out = filter (\<lambda>x. order_key rt sb x = k) arr" for k
  proof (cases k)
    case None
    have "filter (\<lambda>x. order_key rt sb x = None) out = []"
      using keys set_eq by (auto simp: filter_empty_conv)
    moreover have "filter (\<lambda>x. order_key rt sb x = None) arr = []"
      using keys by (auto simp: filter_empty_conv)
    ultimately show ?thesis using None by simp
  next
    case (Some u)
    have iff: "order_key rt sb x = Some u \<longleftrightarrow> key x = s * u" if "x \<in> set arr" for x
    proof -
      from ex[OF that] obtain w where w: "order_key rt sb x = Some w" by blast
      show ?thesis using s by (auto simp: w key_eq[OF w])
    qed
    have "filter (\<lambda>x. order_key rt sb x = Some u) out = filter (\<lambda>x. key x = s * u) out"
      using iff set_eq by (intro filter_cong) auto
    also have "\<dots> = filter (\<lambda>x. key x = s * u) arr" using out(4) by simp
    also have "\<dots> = filter (\<lambda>x. order_key rt sb x = Some u) arr"
      using iff by (intro filter_cong) auto
    finally show ?thesis using Some by simp
  qed
  show ?thesis using out(1) out(2) srt stab by blast
qed

lemma order_key_missing:
  assumes "order_key rt sb x \<noteq> None" "\<not> truthy (peek x (sort_field sb))"
  shows "order_key rt sb x = Some 0"
  using assms
  by (auto simp: order_key_def sort_field_def created_value_def confidence_value_def get_def
      js_or_def timeClip_def split: if_splits)

lemma order_key_timestamp:
  assumes "order_key rt sb x \<noteq> None" "sort_field sb = ''created_at''"
    "peek x ''created_at'' = JStr s" "s \<noteq> []"
  shows "order_key rt sb x = map_option real_of_int (parseDate rt s)"
  using assms
  by (auto simp: order_key_def sort_field_def created_value_def get_def js_or_def
      split: if_splits option.splits)

lemma order_key_confidence:
  assumes "order_key rt sb x \<noteq> None" "sort_field sb = ''confidence''"
    "peek x ''confidence'' = JNum c"
  shows "order_key rt sb x = Some c"
  using assms
  by (auto simp: order_key_def sort_field_def confidence_value_def get_def js_or_def
      split: if_splits option.splits)

lemma sorted_arr_dir:
  fixes s :: real
  assumes run: "sorted_arr rt arr sb = array_sort cmp arr"
    and s: "s = 1 \<or> s = - 1"
    and keys: "\<forall>x\<in>set arr. order_key rt sb x \<noteq> None"
    and rel: "\<And>x y u v. order_key rt sb x = Some u \<Longrightarrow> order_key rt sb y = Some v
                \<Longrightarrow> \<exists>c. cmp x y = Some c \<and> (positive c \<longleftrightarrow> s * v < s * u)"
    and dir: "\<And>u v. in_order sb (Some u) (Some v) = (s * u \<le> s * v)"
  shows "\<exists>out. sorted_arr rt arr sb = Some out
           \<and> mset out = mset arr \<and> length out = length arr
           \<and> sorted_wrt (\<lambda>x y. in_order sb (order_key rt sb x) (order_key rt sb y)) out
           \<and> (\<forall>k. filter (\<lambda>x. order_key rt sb x = k) out = filter (\<lambda>x. order_key rt sb x = k) arr)"
proof -
  from sorted_arr_core[of s arr rt sb cmp, OF s keys rel]
  obtain out where out: "array_sort cmp arr = Some out" "mset out = mset arr"
      "sorted_wrt (\<lambda>x y. \<exists>u v. order_key rt sb x = Some u \<and> order_key rt sb y = Some v
                                  \<and> s * u \<le> s * v) out"
      "\<forall>k. filter (\<lambda>x. order_key rt sb x = k) out = filter (\<lambda>x. order_key rt sb x = k) arr"
    by blast
  have len: "length out = length arr" using out(2) by (metis size_mset)
  have ord: "sorted_wrt (\<lambda>x y. in_order sb (order_key rt sb x) (order_key rt sb y)) out"
    using out(3)
  proof (rule sorted_wrt_mono_rel[rotated])
    fix x y
    assume "\<exists>u v. order_key rt sb x = Some u \<and> order_key rt sb y = Some v \<and> s * u \<le> s * v"
    then obtain u v where "order_key rt sb x = Some u" "order_key rt sb y = Some v" "s * u \<le> s * v"
      by blast
    then show "in_order sb (order_key rt sb x) (order_key rt sb y)"
      by (simp only: dir)
  qed
  show ?thesis
    unfolding run using out(1) out(2) len ord out(4) by blast
qed

lemma sorted_arr_sorted:
  assumes sb: "sb \<in> {''newest'', ''oldest'', ''confidence_desc'', ''confidence_asc''}"
    and keys: "\<forall>x\<in>set arr. order_key rt sb x \<noteq> None"
  shows "\<exists>out. sorted_arr rt arr sb = Some out
           \<and> mset out = mset arr \<and> length out = length arr
           \<and> sorted_wrt (\<lambda>x y. in_order sb (order_key rt sb x) (order_key rt sb y)) out
           \<and> (\<forall>k. filter (\<lambda>x. order_key rt sb x = k) out = filter (\<lambda>x. order_key rt sb x = k) arr)"
proof -
  from sb consider (newest) "sb = ''newest''" | (oldest) "sb = ''oldest''"
    | (desc) "sb = ''confidence_desc''" | (asc) "sb = ''confidence_asc''"
    by blast
  then show ?thesis
  proof cases
    case newest
    have 1: "sorted_arr rt arr sb = array_sort (cmp_newest rt) arr"
      by (simp add: newest sorted_arr_def)
    show ?thesis
      by (rule sorted_arr_dir[of rt arr sb "cmp_newest rt" "- 1", OF 1 _ keys])
         (simp_all add: newest cmp_newest_keyed in_order_def)
  next
    case oldest
    have 1: "sorted_arr rt arr sb = array_sort (cmp_oldest rt) arr"
      by (simp add: oldest sorted_arr_def)
    show ?thesis
      by (rule sorted_arr_dir[of rt arr sb "cmp_oldest rt" 1, OF 1 _ keys])
         (simp_all add: oldest cmp_oldest_keyed in_order_def)
  next
    case desc
    have 1: "sorted_arr rt arr sb = array_sort (cmp_confidence_desc rt) arr"
      by (simp add: desc sorted_arr_def)
    show ?thesis
      by (rule sorted_arr_dir[of rt arr sb "cmp_confidence_desc rt" "- 1", OF 1 _ keys])
         (simp_all add: desc cmp_confidence_desc_keyed in_order_def)
  next
    case asc
    have 1: "sorted_arr rt arr sb = array_sort (cmp_confidence_asc rt) arr"
      by (simp add: asc sorted_arr_def)
    show ?thesis
      by (rule sorted_arr_dir[of rt arr sb "cmp_confidence_asc rt" 1, OF 1 _ keys])
         (simp_all add: asc cmp_confidence_asc_keyed in_order_def)
  qed
qed

text \<open>
  Claim C1, as amended. For a sort option among \<open>newest\<close>, \<open>oldest\<close>, \<open>confidence_desc\<close>
  and \<open>confidence_asc\<close>, and a filtered collection in which every record has a sort key,
  the sorted set exists, is a permutation of the filtered set of the same length, has
  every pair of its records (so every adjacent pair) in the order of the option, and
  keeps the records of equal key in their original relative order. The key of a record
  without a timestamp is the time value 0, the Unix epoch (and not an instant before
  every other), the key of a record without a confidence is 0; a timestamp that is
  present has the time value it parses to, and a confidence that is present is its own
  key.
\<close>

theorem sorted_arr_stable_sort:
  assumes sb: "sb \<in> {''newest'', ''oldest'', ''confidence_desc'', ''confidence_asc''}"
    and keys: "\<forall>x\<in>set arr. order_key rt sb x \<noteq> None"
  shows "\<exists>out. sorted_arr rt arr sb = Some out
           \<and> mset out = mset arr \<and> length out = length arr
           \<and> sorted_wrt (\<lambda>x y. in_order sb (order_key rt sb x) (order_key rt sb y)) out
           \<and> (\<forall>k. filter (\<lambda>x. order_key rt sb x = k) out = filter (\<lambda>x. order_key rt sb x = k) arr)
           \<and> (\<forall>x\<in>set arr. \<not> truthy (peek x (sort_field sb)) \<longrightarrow> order_key rt sb x = Some 0)
           \<and> (\<forall>x\<in>set arr. \<forall>s. sort_field sb = ''created_at'' \<and> peek x ''created_at'' = JStr s \<and> s \<noteq> []
                  \<longrightarrow> order_key rt sb x = map_option real_of_int (parseDate rt s))
           \<and> (\<forall>x\<in>set arr. \<forall>c. sort_field sb = ''confidence'' \<and> peek x ''confidence'' = JNum c
                  \<longrightarrow> order_key rt sb x = Some c)"
proof -
  have miss: "\<forall>x\<in>set arr. \<not> truthy (peek x (sort_field sb)) \<longrightarrow> order_key rt sb x = Some 0"
    using keys order_key_missing by blast
  have ts: "\<forall>x\<in>set arr. \<forall>s. sort_field sb = ''created_at'' \<and> peek x ''created_at'' = JStr s \<and> s \<noteq> []
                  \<longrightarrow> order_key rt sb x = map_option real_of_int (parseDate rt s)"
    using keys order_key_timestamp by blast
  have cf: "\<forall>x\<in>set arr. \<forall>c. sort_field sb = ''confidence'' \<and> peek x ''confidence'' = JNum c
                  \<longrightarrow> order_key rt sb x = Some c"
    using keys order_key_confidence by blast
  from sorted_arr_sorted[OF sb keys] miss ts cf show ?thesis by blast
qed

theorem sorted_arr_stable_sort_witness:
  "sorted_arr demo_runtime
     [JObj [(''id'', JNum 1), (''severity'', JStr ''low''), (''confidence'', JNum 0.4),
            (''created_at'', JStr ''2024-05-01T00:00:00.000Z'')],
      JObj [(''id'', JNum 2), (''severity'', JStr ''medium'')],
      JObj [(''id'', JNum 3), (''severity'', JStr ''high''), (''confidence'', JNum 0.9),
            (''created_at'', JStr ''2024-05-02T00:00:00.000Z'')]]
     ''confidence_desc''
   = Some
     [JObj [(''id'', JNum 3), (''severity'', JStr ''high''), (''confidence'', JNum 0.9),
            (''created_at'', JStr ''2024-05-02T00:00:00.000Z'')],
      JObj [(''id'', JNum 1), (''severity'', JStr ''low''), (''confidence'', JNum 0.4),
            (''created_at'', JStr ''2024-05-01T00:00:00.000Z'')],
      JObj [(''id'', JNum 2), (''severity'', JStr ''medium'')]]
   \<and> order_key demo_runtime ''confidence_desc'' (JObj [(''id'', JNum 2), (''severity'', JStr ''medium'')])
       = Some 0"
proof -
  let ?low = "JObj [(''id'', JNum 1), (''severity'', JStr ''low''), (''confidence'', JNum 0.4),
            (''created_at'', JStr ''2024-05-01T00:00:00.000Z'')]"
  let ?none = "JObj [(''id'', JNum 2), (''severity'', JStr ''medium'')]"
  let ?high = "JObj [(''id'', JNum 3), (''severity'', JStr ''high''), (''confidence'', JNum 0.9),
            (''created_at'', JStr ''2024-05-02T00:00:00.000Z'')]"
  have k: "order_key demo_runtime ''confidence_desc'' ?low = Some 0.4"
      "order_key demo_runtime ''confidence_desc'' ?none = Some 0"
      "order_key demo_runtime ''confidence_desc'' ?high = Some 0.9"
    by (simp_all add: order_key_def confidence_value_def get_def js_or_def)
  have h1: "''confidence_desc'' \<in> {''newest'', ''oldest'', ''confidence_desc'', ''confidence_asc''}"
    by simp
  have h2: "\<forall>x\<in>set [?low, ?none, ?high]. order_key demo_runtime ''confidence_desc'' x \<noteq> None"
  proof
    fix x assume "x \<in> set [?low, ?none, ?high]"
    then consider "x = ?low" | "x = ?none" | "x = ?high" by auto
    then show "order_key demo_runtime ''confidence_desc'' x \<noteq> None"
      by cases (simp_all only: k option.distinct not_False_eq_True)
  qed
  from sorted_arr_stable_sort[OF h1 h2] obtain out where
    out: "sorted_arr demo_runtime [?low, ?none, ?high] ''confidence_desc'' = Some out"
    by blast
  have "sorted_arr demo_runtime [?low, ?none, ?high] ''confidence_desc'' = Some [?high, ?low, ?none]"
    by (simp add: sorted_arr_def cmp_confidence_desc_def confidence_value_def get_def js_or_def
        num_sub_def)
  with out k(2) show ?thesis by simp
qed

text \<open>
  The claim as it is worded fails on a timestamp before 1970: under \<open>oldest\<close> the record
  without a timestamp is placed after it, while the wording makes a missing timestamp the
  earliest of all.
\<close>

theorem sorted_arr_missing_timestamp_counterexample:
  "sorted_arr demo_runtime
     [JObj [(''id'', JNum 1), (''created_at'', JStr ''1969-12-31T23:59:59.000Z'')],
      JObj [(''id'', JNum 2)]]
     ''oldest''
   = Some
     [JObj [(''id'', JNum 1), (''created_at'', JStr ''1969-12-31T23:59:59.000Z'')],
      JObj [(''id'', JNum 2)]]
   \<and> \<not> sorted_wrt (claimed_oldest_first demo_runtime)
     [JObj [(''id'', JNum 1), (''created_at'', JStr ''1969-12-31T23:59:59.000Z'')],
      JObj [(''id'', JNum 2)]]"
  by (simp add: sorted_arr_def cmp_oldest_def created_value_def get_def js_or_def
      demo_runtime_def timeClip_def claimed_oldest_first_def claimed_time_def)

section \<open>Properties of the filter\<close>

lemma optional_text_cases:
  assumes "optional_text v"
  obtains "v = JUndefined" | "v = JNull" | s where "v = JStr s"
  using assms by (auto simp: optional_text_def split: jsval.splits)

lemma optional_text_or:
  assumes "optional_text v"
  shows "js_or v w = (if text_of v \<noteq> [] then JStr (text_of v) else w)"
    and "truthy v \<longleftrightarrow> text_of v \<noteq> []"
  using assms by (auto elim!: optional_text_cases simp: js_or_def text_of_def)

lemma prediction_like_truthy:
  assumes "prediction_like v" "truthy v"
  shows "\<exists>d. get v ''disease'' = Some d \<and> js_or d v = JStr (disease_name v) \<and> disease_name v \<noteq> []"
  using assms
  by (cases v)
     (auto simp: prediction_like_def get_def js_or_def disease_name_def text_of_def
           split: jsval.splits option.splits)

lemma getCattleName_wf:
  assumes "wf_record item"
  shows "getCattleName rt item = Some (JStr (display_name rt item))"
proof -
  from assms obtain kvs where item: "item = JObj kvs"
    by (auto simp: wf_record_def split: jsval.splits)
  have g: "get item k = Some (peek item k)" for k by (simp add: item get_def)
  have cn: "optional_text (peek item ''cattle_name'')"
    using assms by (simp add: wf_record_def item)
  show ?thesis
  proof (cases "peek item ''cattle''")
    case (JObj c)
    then have "optional_text (peek (JObj c) ''name'')" "optional_text (peek (JObj c) ''tag_number'')"
      using assms by (simp_all add: wf_record_def item)
    then show ?thesis
      unfolding getCattleName_def
      by (simp add: item[symmetric] g JObj get_def display_name_def optional_text_or)
         (simp add: item js_or_def)
  next
    case (JNum n)
    then show ?thesis
      unfolding getCattleName_def using cn
      by (simp add: item[symmetric] g display_name_def optional_text_or(2))
         (auto simp: item text_of_def elim!: optional_text_cases)
  next
    case JUndefined
    then show ?thesis
      unfolding getCattleName_def using cn
      by (simp add: item[symmetric] g display_name_def optional_text_or(2))
         (auto simp: item text_of_def elim!: optional_text_cases)
  next
    case JNull
    then show ?thesis
      unfolding getCattleName_def using cn
      by (simp add: item[symmetric] g display_name_def optional_text_or(2))
         (auto simp: item text_of_def elim!: optional_text_cases)
  next
    case (JBool b)
    then show ?thesis using assms by (simp add: wf_record_def item)
  next
    case (JStr s)
    then show ?thesis using assms by (simp add: wf_record_def item)
  next
    case (JArr xs)
    then show ?thesis using assms by (simp add: wf_record_def item)
  qed
qed

lemma prediction_like_or: "prediction_like a \<Longrightarrow> prediction_like b \<Longrightarrow> prediction_like (js_or a b)"
  by (simp add: js_or_def)

lemma prediction_like_simps:
  "prediction_like JUndefined" "prediction_like JNull" "prediction_like (JStr s)"
  by (simp_all add: prediction_like_def)

lemma wf_record_obj: "wf_record item \<Longrightarrow> \<exists>kvs. item = JObj kvs"
  by (cases item) (simp_all add: wf_record_def)

lemma wf_record_fields:
  assumes "wf_record item"
  shows "optional_text (peek item ''cattle_name'')"
    and "prediction_like (peek item ''top_processed'')"
    and "prediction_like (peek item ''top_prediction'')"
    and "optional_text (peek item ''severity'')"
  using assms by (cases item; simp add: wf_record_def)+

lemma wf_record_ml:
  assumes "wf_record item"
  shows "prediction_like (get_opt (peek item ''_ml'') ''top_processed'')"
proof -
  from assms have c: "(case peek item ''_ml'' of
                JUndefined \<Rightarrow> True
              | JNull \<Rightarrow> True
              | JObj m \<Rightarrow> prediction_like (peek (JObj m) ''top_processed'')
              | _ \<Rightarrow> False)"
    by (cases item; simp add: wf_record_def)
  show ?thesis
    using c by (cases "peek item ''_ml''") (simp_all add: get_opt_def prediction_like_simps)
qed

lemma wf_record_predictions:
  assumes "wf_record item"
  obtains "peek item ''predictions'' = JUndefined"
  | "peek item ''predictions'' = JNull"
  | "peek item ''predictions'' = JArr []"
  | p ps where "peek item ''predictions'' = JArr (p # ps)" "prediction_like p"
proof -
  from assms have c: "(case peek item ''predictions'' of
                JUndefined \<Rightarrow> True
              | JNull \<Rightarrow> True
              | JArr ps \<Rightarrow> (case ps of [] \<Rightarrow> True | p # _ \<Rightarrow> prediction_like p)
              | _ \<Rightarrow> False)"
    by (cases item; simp add: wf_record_def)
  show ?thesis
  proof (cases "peek item ''predictions''")
    case (JArr ps)
    with c that show ?thesis by (cases ps) simp_all
  qed (use c that in simp_all)
qed

lemma top_candidate_wf:
  assumes "wf_record item"
  defines "f \<equiv> (case peek item ''predictions'' of JArr (p # ps) \<Rightarrow> p | _ \<Rightarrow> JUndefined)"
  shows "prediction_like f"
    and "\<exists>T'. (if truthy (peek item ''predictions'') then index0 (peek item ''predictions'')
               else Some (peek item ''predictions'')) = Some T' \<and> (truthy T' \<longleftrightarrow> truthy f)
               \<and> (truthy f \<longrightarrow> T' = f)"
  by (rule wf_record_predictions[OF assms(1)]; simp add: f_def prediction_like_simps)+

lemma pick_prediction:
  assumes "prediction_like T"
  shows "(if truthy T then get T ''disease'' else Some JUndefined) \<bind>
           (\<lambda>d. if truthy T \<and> truthy (js_or d T) then Some (js_or d T) else K)
         = (if truthy T then Some (JStr (disease_name T)) else K)"
proof (cases "truthy T")
  case True
  from prediction_like_truthy[OF assms True] obtain d where
    "get T ''disease'' = Some d" "js_or d T = JStr (disease_name T)" "disease_name T \<noteq> []"
    by blast
  then show ?thesis using True by simp
next
  case False
  then show ?thesis by simp
qed

lemma pick_prediction_weak:
  assumes "prediction_like T" "truthy T' \<longleftrightarrow> truthy T" "truthy T \<longrightarrow> T' = T"
  shows "(if truthy T' then get T' ''disease'' else Some JUndefined) \<bind>
           (\<lambda>d. if truthy T' \<and> truthy (js_or d T') then Some (js_or d T') else K)
         = (if truthy T then Some (JStr (disease_name T)) else K)"
proof (cases "truthy T")
  case True
  then have "T' = T" using assms(3) by simp
  then show ?thesis unfolding \<open>T' = T\<close> by (simp only: pick_prediction[OF assms(1)])
next
  case False
  then have "\<not> truthy T'" using assms(2) by simp
  then show ?thesis using False by simp
qed

lemma disease_name_truthy:
  assumes "prediction_like T" "truthy T"
  shows "disease_name T \<noteq> []"
  using prediction_like_truthy[OF assms] by blast

lemma getTopDisease_wf:
  assumes "wf_record item"
  shows "getTopDisease item = Some (JStr (display_disease item))"
    and "display_disease item \<noteq> []"
proof -
  from wf_record_obj[OF assms] obtain kvs where item: "item = JObj kvs" by blast
  have t: "truthy item" by (simp add: item)
  have g: "get item k = Some (peek item k)" for k by (simp add: item get_def)
  define P where "P = js_or (get_opt (peek item ''_ml'') ''top_processed'') (peek item ''top_processed'')"
  define f where "f = (case peek item ''predictions'' of JArr (p # ps) \<Rightarrow> p | _ \<Rightarrow> JUndefined)"
  define T where "T = js_or (peek item ''top_prediction'') f"
  have pP: "prediction_like P"
    unfolding P_def by (intro prediction_like_or wf_record_ml[OF assms] wf_record_fields(2)[OF assms])
  have pf: "prediction_like f"
    unfolding f_def by (rule top_candidate_wf(1)[OF assms])
  have ptp: "prediction_like (peek item ''top_prediction'')"
    by (rule wf_record_fields(3)[OF assms])
  have pT: "prediction_like T"
    unfolding T_def using ptp pf by (rule prediction_like_or)
  from top_candidate_wf(2)[OF assms] obtain F where
    F: "(if truthy (peek item ''predictions'') then index0 (peek item ''predictions'')
         else Some (peek item ''predictions'')) = Some F" "truthy F \<longleftrightarrow> truthy f" "truthy f \<longrightarrow> F = f"
    unfolding f_def by blast
  define T' where "T' = (if truthy (peek item ''top_prediction'') then peek item ''top_prediction'' else F)"
  have top: "(if truthy (peek item ''top_prediction'') then Some (peek item ''top_prediction'')
              else if truthy (peek item ''predictions'') then index0 (peek item ''predictions'')
              else Some (peek item ''predictions'')) = Some T'"
    using F(1) by (simp add: T'_def)
  have T'1: "truthy T' \<longleftrightarrow> truthy T" using F(2) by (simp add: T'_def T_def js_or_def)
  have T'2: "truthy T \<longrightarrow> T' = T" using F(2,3) by (simp add: T'_def T_def js_or_def)
  have dd: "display_disease item =
      (if truthy P then disease_name P else if truthy T then disease_name T else ''No prediction'')"
    by (simp add: display_disease_def Let_def P_def T_def f_def)
  have "getTopDisease item =
      (if truthy P then get P ''disease'' else Some JUndefined) \<bind>
        (\<lambda>pd. if truthy P \<and> truthy (js_or pd P) then Some (js_or pd P)
              else (if truthy T' then get T' ''disease'' else Some JUndefined) \<bind>
                (\<lambda>d. if truthy T' \<and> truthy (js_or d T') then Some (js_or d T')
                      else Some (JStr ''No prediction'')))"
    unfolding getTopDisease_def
    by (simp only: t g top Let_def P_def[symmetric] bind.bind_lunit not_True_eq_False if_False)
  also have "\<dots> = (if truthy P then Some (JStr (disease_name P))
                    else if truthy T then Some (JStr (disease_name T))
                    else Some (JStr ''No prediction''))"
    by (simp only: pick_prediction[OF pP] pick_prediction_weak[OF pT T'1 T'2])
  finally show "getTopDisease item = Some (JStr (display_disease item))"
    by (simp add: dd)
  show "display_disease item \<noteq> []"
    using disease_name_truthy[OF pP] disease_name_truthy[OF pT] by (simp add: dd)
qed

lemma filterM_pure:
  assumes "\<forall>x\<in>set xs. p x = Some (P x)"
  shows "filterM p xs = Some (filter P xs)"
  using assms by (induction xs) simp_all

lemma lower_severity_option:
  "sev \<in> {''all'', ''low'', ''medium'', ''high''} \<Longrightarrow> lower sev = sev"
  by (auto simp: lower_def toLowerChar_def)

lemma severity_text:
  assumes "optional_text v"
  shows "toLowerCase (js_or v (JStr [])) = Some (lower (text_of v))"
  using assms by (auto elim!: optional_text_cases simp: js_or_def text_of_def lower_def)

lemma matches_wf_any:
  assumes wf: "wf_record item"
  shows "matches rt q sev item =
           Some ((q = [] \<or> str_includes (lower (display_name rt item)) q
                         \<or> str_includes (lower (display_disease item)) q)
                 \<and> (sev = ''all'' \<or> lower (text_of (peek item ''severity'')) = sev))"
proof -
  from wf_record_obj[OF wf] obtain kvs where item: "item = JObj kvs" by blast
  have g: "get item ''severity'' = Some (peek item ''severity'')" by (simp add: item get_def)
  have d: "js_or (JStr (display_disease item)) (JStr []) = JStr (display_disease item)"
    using getTopDisease_wf(2)[OF wf] by (simp add: js_or_def)
  have s: "toLowerCase (js_or (peek item ''severity'') (JStr [])) = Some (lower (text_of (peek item ''severity'')))"
    by (rule severity_text[OF wf_record_fields(4)[OF wf]])
  show ?thesis
    unfolding matches_def
    by (simp add: getCattleName_wf[OF wf] getTopDisease_wf(1)[OF wf] d g s Let_def)
qed

lemma matches_wf:
  assumes wf: "wf_record item" and sev: "sev \<in> {''all'', ''low'', ''medium'', ''high''}"
  shows "matches rt (lower (trim query)) sev item = Some (display_match rt query sev item)"
  unfolding display_match_def Let_def
  by (simp add: matches_wf_any[OF wf] lower_severity_option[OF sev])

lemma filtered_wf:
  assumes "\<forall>item\<in>set xs. wf_record item" "sev \<in> {''all'', ''low'', ''medium'', ''high''}"
  shows "filtered rt xs query sev = Some (filter (display_match rt query sev) xs)"
  unfolding filtered_def Let_def
  by (rule filterM_pure) (use assms matches_wf in blast)

lemma str_includes_sublist: "str_includes s q \<longleftrightarrow> sublist q s"
  by (induction s) (simp_all add: sublist_Cons_right)

text \<open>
  Claim C2, as amended. For a collection of well-formed records, a query and a severity
  filter among \<open>all\<close>, \<open>low\<close>, \<open>medium\<close> and \<open>high\<close>, the filtered set exists and holds, in
  their order, exactly the records for which the trimmed and lowered query is empty or
  occurs in the lowered display name or in the lowered display disease, and for which
  the filter is \<open>all\<close> or equals the lowered severity. The display name is the one of
  \<open>display_name\<close>: the flat \<open>cattle_name\<close> stands between the nested cattle object and
  the synthesized \<open>Cattle #id\<close>, and a nested object with neither name nor tag number
  is \<open>Unknown\<close>.
\<close>

theorem filtered_display_match:
  assumes "\<forall>item\<in>set xs. wf_record item" "sev \<in> {''all'', ''low'', ''medium'', ''high''}"
  shows "\<exists>out. filtered rt xs query sev = Some out
           \<and> out = filter (display_match rt query sev) xs
           \<and> (\<forall>item. item \<in> set out \<longleftrightarrow> item \<in> set xs \<and> display_match rt query sev item)"
  using filtered_wf[OF assms] by simp

theorem filtered_display_match_witness:
  "filtered demo_runtime
     [JObj [(''id'', JNum 1), (''cattle'', JObj [(''id'', JNum 7), (''name'', JStr ''Bossy''), (''tag_number'', JStr ''TAG-7'')]),
            (''top_prediction'', JObj [(''disease'', JStr ''Mastitis''), (''confidence'', JNum 0.9)]),
            (''severity'', JStr ''High'')],
      JObj [(''id'', JNum 2), (''cattle'', JNum 8), (''severity'', JStr ''low'')]]
     ''bossy'' ''all''
   = Some
     [JObj [(''id'', JNum 1), (''cattle'', JObj [(''id'', JNum 7), (''name'', JStr ''Bossy''), (''tag_number'', JStr ''TAG-7'')]),
            (''top_prediction'', JObj [(''disease'', JStr ''Mastitis''), (''confidence'', JNum 0.9)]),
            (''severity'', JStr ''High'')]]"
  using filtered_display_match[of
     "[JObj [(''id'', JNum 1), (''cattle'', JObj [(''id'', JNum 7), (''name'', JStr ''Bossy''), (''tag_number'', JStr ''TAG-7'')]),
            (''top_prediction'', JObj [(''disease'', JStr ''Mastitis''), (''confidence'', JNum 0.9)]),
            (''severity'', JStr ''High'')],
      JObj [(''id'', JNum 2), (''cattle'', JNum 8), (''severity'', JStr ''low'')]]"
     "''all''" demo_runtime "''bossy''"]
  by (simp add: wf_record_def optional_text_def prediction_like_def display_match_def
      display_name_def display_disease_def disease_name_def text_of_def js_or_def get_opt_def
      lower_def toLowerChar_def trim_def is_space_def numToStr_def show_int_def show_nat.simps)

text \<open>
  The claim as it is worded fails on a record with a numeric cattle reference and a flat
  \<open>cattle_name\<close>: the view shows and searches the flat name, the wording gives
  \<open>Cattle #7\<close>.
\<close>

theorem filtered_flat_name_counterexample:
  "filtered demo_runtime [JObj [(''id'', JNum 1), (''cattle'', JNum 7), (''cattle_name'', JStr ''Bossy'')]]
     ''bossy'' ''all''
   = Some [JObj [(''id'', JNum 1), (''cattle'', JNum 7), (''cattle_name'', JStr ''Bossy'')]]
   \<and> \<not> claimed_match demo_runtime ''bossy'' ''all''
        (JObj [(''id'', JNum 1), (''cattle'', JNum 7), (''cattle_name'', JStr ''Bossy'')])"
proof -
  have "filtered demo_runtime [JObj [(''id'', JNum 1), (''cattle'', JNum 7), (''cattle_name'', JStr ''Bossy'')]]
     ''bossy'' ''all''
   = Some [JObj [(''id'', JNum 1), (''cattle'', JNum 7), (''cattle_name'', JStr ''Bossy'')]]"
    by (simp add: filtered_def matches_def getCattleName_def getTopDisease_def get_def get_opt_def
        js_or_def lower_def toLowerChar_def trim_def is_space_def)
  moreover have "\<not> claimed_match demo_runtime ''bossy'' ''all''
        (JObj [(''id'', JNum 1), (''cattle'', JNum 7), (''cattle_name'', JStr ''Bossy'')])"
    by (simp add: claimed_match_def claimed_display_name_def display_disease_def disease_name_def
        text_of_def js_or_def get_opt_def lower_def toLowerChar_def trim_def is_space_def
        numToStr_def show_int_def show_nat.simps)
  ultimately show ?thesis by simp
qed

section \<open>Properties of the transitions of the view\<close>

lemma per_page_pos: "0 < per_page n"
  by (cases n) simp_all

lemma pageCount_pos: "pageCount n p = Some pc \<Longrightarrow> 1 \<le> pc"
  by (auto simp: pageCount_def split: if_splits)

lemma view_pageCount_pos: "view_pageCount rt st = Some pc \<Longrightarrow> 1 \<le> pc"
  using pageCount_pos by (auto simp: view_pageCount_def split: bind_splits)

lemma view_sorted_page [simp]: "view_sorted rt (st\<lparr>page := p\<rparr>) = view_sorted rt st"
  by (simp add: view_sorted_def)

lemma view_pageCount_page [simp]: "view_pageCount rt (st\<lparr>page := p\<rparr>) = view_pageCount rt st"
  by (simp add: view_pageCount_def)

lemma clamp_page_range:
  assumes "1 \<le> pc" "0 \<le> p"
  shows "0 \<le> clamp_page pc p" and "clamp_page pc p < int pc"
  using assms by (auto simp: clamp_page_def)

lemma set_slice_subset: "set (slice xs a b) \<subseteq> set xs"
  unfolding slice_def Let_def
  by (meson set_take_subset set_drop_subset subset_trans)

lemma page_buttons_nonneg: "p \<in> set (page_buttons pc q) \<Longrightarrow> 0 \<le> p \<and> p < int pc"
  using set_slice_subset[of "map int [0..<pc]" "max 0 (q - 3)" "min (int pc) (q + 4)"]
  by (auto simp: page_buttons_def)

lemma handle_nonneg:
  assumes "1 \<le> pc" "0 \<le> page st"
  shows "0 \<le> page (handle pc st ev)"
  using assms page_buttons_nonneg[of _ pc "page st"]
  by (cases ev) auto

lemma clamp_effect_in_range:
  assumes "clamp_effect rt st = Some st'" "0 \<le> page st"
  shows "\<exists>pc. view_pageCount rt st' = Some pc \<and> 0 \<le> page st' \<and> page st' < int pc"
proof -
  from assms(1) obtain pc where pc: "view_pageCount rt st = Some pc"
      and st': "st' = st\<lparr>page := clamp_page pc (page st)\<rparr>"
    by (auto simp: clamp_effect_def split: bind_splits)
  have "1 \<le> pc" using pc by (rule view_pageCount_pos)
  then show ?thesis
    using clamp_page_range[of pc "page st"] assms(2) pc by (simp add: st')
qed

lemma step_in_range:
  assumes "step rt st ev = Some st'" "0 \<le> page st"
  shows "\<exists>pc. view_pageCount rt st' = Some pc \<and> 0 \<le> page st' \<and> page st' < int pc"
proof -
  from assms(1) obtain pc where pc: "view_pageCount rt st = Some pc"
      and ce: "clamp_effect rt (handle pc st ev) = Some st'"
    by (auto simp: step_def split: bind_splits)
  have "0 \<le> page (handle pc st ev)"
    using view_pageCount_pos[OF pc] assms(2) by (rule handle_nonneg)
  with ce show ?thesis by (rule clamp_effect_in_range)
qed

lemma initial_in_range:
  "view_pageCount rt initial_state = Some 1 \<and> page initial_state = 0"
  by (simp add: initial_state_def view_pageCount_def view_sorted_def filtered_def sorted_arr_def
      pageCount_def)

lemma run_in_range:
  assumes "run rt st evs = Some st'"
    and "\<exists>pc. view_pageCount rt st = Some pc \<and> 0 \<le> page st \<and> page st < int pc"
  shows "\<exists>pc. view_pageCount rt st' = Some pc \<and> 0 \<le> page st' \<and> page st' < int pc"
  using assms
proof (induction evs arbitrary: st)
  case Nil
  then show ?case by simp
next
  case (Cons ev evs)
  from Cons.prems(1) obtain st1 where s1: "step rt st ev = Some st1" and r: "run rt st1 evs = Some st'"
    by (auto split: bind_splits)
  from Cons.prems(2) have "0 \<le> page st" by blast
  from step_in_range[OF s1 this] show ?case by (rule Cons.IH[OF r])
qed

lemma record_ok_key: "record_ok rt x \<Longrightarrow> order_key rt sb x \<noteq> None"
  by (simp add: record_ok_def order_key_def)

lemma sorted_arr_total:
  assumes "\<forall>x\<in>set arr. record_ok rt x"
  shows "\<exists>out. sorted_arr rt arr sb = Some out \<and> mset out = mset arr"
proof (cases "sb \<in> {''newest'', ''oldest'', ''confidence_desc'', ''confidence_asc''}")
  case True
  have "\<forall>x\<in>set arr. order_key rt sb x \<noteq> None" using assms record_ok_key by blast
  from sorted_arr_sorted[OF True this] show ?thesis by blast
next
  case False
  then show ?thesis by (simp add: sorted_arr_def)
qed

lemma filtered_total:
  assumes "\<forall>x\<in>set xs. wf_record x"
  shows "filtered rt xs query sev =
     Some (filter (\<lambda>item. (lower (trim query) = []
                              \<or> str_includes (lower (display_name rt item)) (lower (trim query))
                              \<or> str_includes (lower (display_disease item)) (lower (trim query)))
                           \<and> (sev = ''all'' \<or> lower (text_of (peek item ''severity'')) = sev)) xs)"
  unfolding filtered_def Let_def
  by (rule filterM_pure) (use assms matches_wf_any in blast)

lemma view_sorted_total:
  assumes "\<forall>x\<in>set (list st). record_ok rt x"
  shows "\<exists>out. view_sorted rt st = Some out \<and> set out \<subseteq> set (list st)"
proof -
  have wf: "\<forall>x\<in>set (list st). wf_record x" using assms by (simp add: record_ok_def)
  obtain f where f: "filtered rt (list st) (search st) (severityFilter st) = Some f"
      and sub: "set f \<subseteq> set (list st)"
    using filtered_total[OF wf, of rt "search st" "severityFilter st"] by auto
  have "\<forall>x\<in>set f. record_ok rt x" using assms sub by blast
  from sorted_arr_total[OF this, of "sortBy st"] obtain out where
    out: "sorted_arr rt f (sortBy st) = Some out" "mset out = mset f"
    by blast
  have "set out = set f" using out(2) by (metis set_mset_mset)
  then show ?thesis using f out(1) sub by (simp add: view_sorted_def)
qed

lemma view_pageCount_total:
  assumes "\<forall>x\<in>set (list st). record_ok rt x"
  shows "\<exists>pc. view_pageCount rt st = Some pc"
proof -
  from view_sorted_total[OF assms] obtain out where "view_sorted rt st = Some out" by blast
  then show ?thesis using per_page_pos[of "itemsPerPage st"]
    by (simp add: view_pageCount_def pageCount_def)
qed

lemma list_handle:
  "list (handle pc st ev) = (case ev of SetList xs \<Rightarrow> xs | _ \<Rightarrow> list st)"
  by (cases ev) simp_all

lemma step_total:
  assumes "\<forall>x\<in>set (list st). record_ok rt x" "event_ok rt ev"
  shows "\<exists>st'. step rt st ev = Some st' \<and> (\<forall>x\<in>set (list st'). record_ok rt x)"
proof -
  from view_pageCount_total[OF assms(1)] obtain pc where pc: "view_pageCount rt st = Some pc"
    by blast
  have ok: "\<forall>x\<in>set (list (handle pc st ev)). record_ok rt x"
    using assms by (cases ev) (simp_all add: event_ok_def list_all_iff)
  from view_pageCount_total[OF ok] obtain pc' where
    pc': "view_pageCount rt (handle pc st ev) = Some pc'"
    by blast
  show ?thesis using pc pc' ok by (simp add: step_def clamp_effect_def)
qed

lemma run_total:
  assumes "\<forall>x\<in>set (list st). record_ok rt x" "\<forall>ev\<in>set evs. event_ok rt ev"
  shows "\<exists>st'. run rt st evs = Some st'"
  using assms
proof (induction evs arbitrary: st)
  case Nil
  show ?case by simp
next
  case (Cons ev evs)
  from step_total[OF Cons.prems(1), of ev] Cons.prems(2) obtain st1 where
    s1: "step rt st ev = Some st1" and ok: "\<forall>x\<in>set (list st1). record_ok rt x"
    by auto
  from Cons.IH[OF ok] Cons.prems(2) obtain st' where "run rt st1 evs = Some st'" by auto
  then show ?case using s1 by simp
qed

text \<open>
  Claim C4. After every sequence of transitions of the diagnosis list (a setter of the
  load effect, a change of the search, of the severity filter, of the sort option or of
  the page size, a click on a pagination button), each followed by the recomputation
  and the clamping effect, the page index satisfies \<open>0 \<le> page < pageCount\<close> for the page
  count of the current filtered and sorted set and page size. The renders on the way do
  not throw when every list that was loaded holds well-formed records.
\<close>

theorem page_always_in_range:
  "(\<forall>st. run rt initial_state evs = Some st
        \<longrightarrow> (\<exists>pc. view_pageCount rt st = Some pc \<and> 0 \<le> page st \<and> page st < int pc))
   \<and> ((\<forall>ev\<in>set evs. event_ok rt ev) \<longrightarrow> (\<exists>st. run rt initial_state evs = Some st))"
proof (intro conjI allI impI)
  fix st assume "run rt initial_state evs = Some st"
  then show "\<exists>pc. view_pageCount rt st = Some pc \<and> 0 \<le> page st \<and> page st < int pc"
    by (rule run_in_range) (simp add: initial_in_range)
next
  assume "\<forall>ev\<in>set evs. event_ok rt ev"
  then show "\<exists>st. run rt initial_state evs = Some st"
    by (intro run_total) (simp_all add: initial_state_def)
qed

lemma view_pageCount_unfiltered:
  assumes ok: "\<forall>x\<in>set (list st). record_ok rt x"
    and q: "lower (trim (search st)) = []" and sev: "severityFilter st = ''all''"
  shows "view_pageCount rt st = pageCount (length (list st)) (per_page (itemsPerPage st))"
proof -
  have wf: "\<forall>x\<in>set (list st). wf_record x" using ok by (simp add: record_ok_def)
  have f: "filtered rt (list st) (search st) (severityFilter st) = Some (list st)"
    using filtered_total[OF wf, of rt "search st" "severityFilter st"] by (simp add: q sev)
  from sorted_arr_total[OF ok, of "sortBy st"] obtain out where
    out: "sorted_arr rt (list st) (sortBy st) = Some out" "mset out = mset (list st)"
    by blast
  have "length out = length (list st)" using out(2) by (metis size_mset)
  then show ?thesis using f out(1) by (simp add: view_pageCount_def view_sorted_def)
qed

lemma demo_record_ok: "record_ok demo_runtime demo_record"
  by (simp add: record_ok_def demo_record_def wf_record_def optional_text_def prediction_like_def
      order_key_def created_value_def confidence_value_def get_def js_or_def demo_runtime_def)

lemma trim_empty: "lower (trim []) = []"
  by (simp add: lower_def trim_def)

lemma demo_pageCount:
  "view_pageCount demo_runtime
     \<lparr>list = replicate n demo_record, loading = l, search = [], severityFilter = ''all'',
      sortBy = sb, page = p, itemsPerPage = k\<rparr>
   = pageCount n (per_page k)"
  by (subst view_pageCount_unfiltered) (simp_all add: demo_record_ok trim_empty)

lemma empty_pageCount:
  "view_pageCount rt
     \<lparr>list = [], loading = l, search = q, severityFilter = f, sortBy = sb, page = p, itemsPerPage = k\<rparr>
   = Some 1"
  using per_page_pos[of k]
  by (simp add: view_pageCount_def view_sorted_def filtered_def sorted_arr_def pageCount_def)

lemma demo_run:
  "run demo_runtime initial_state
     [SetList (replicate 13 demo_record), SetLoading False, NextClick, NextClick, NextClick]
   = Some \<lparr>list = replicate 13 demo_record, loading = False, search = [], severityFilter = ''all'',
           sortBy = ''newest'', page = 1, itemsPerPage = P8\<rparr>"
  by (simp add: initial_state_def step_def clamp_effect_def demo_pageCount pageCount_def
      clamp_page_def initial_in_range[unfolded initial_state_def])

theorem page_always_in_range_witness:
  "run demo_runtime initial_state
     [SetList (replicate 13 demo_record), SetLoading False, NextClick, NextClick, NextClick]
   = Some \<lparr>list = replicate 13 demo_record, loading = False, search = [], severityFilter = ''all'',
           sortBy = ''newest'', page = 1, itemsPerPage = P8\<rparr>
   \<and> view_pageCount demo_runtime
        \<lparr>list = replicate 13 demo_record, loading = False, search = [], severityFilter = ''all'',
         sortBy = ''newest'', page = 1, itemsPerPage = P8\<rparr> = Some 2"
proof -
  let ?evs = "[SetList (replicate 13 demo_record), SetLoading False, NextClick, NextClick, NextClick]"
  let ?st = "\<lparr>list = replicate 13 demo_record, loading = False, search = [], severityFilter = ''all'',
           sortBy = ''newest'', page = 1, itemsPerPage = P8\<rparr>"
  have r: "run demo_runtime initial_state ?evs = Some ?st" by (rule demo_run)
  from page_always_in_range[of demo_runtime ?evs] r
  obtain pc where pc: "view_pageCount demo_runtime ?st = Some pc" "page ?st < int pc"
    by blast
  have "view_pageCount demo_runtime ?st = Some 2"
    by (simp add: demo_pageCount pageCount_def)
  with r pc show ?thesis by simp
qed

lemma step_resize:
  assumes "step rt st (ItemsPerPageChange n) = Some st'"
  shows "page st' = 0 \<and> itemsPerPage st' = n \<and> (\<exists>pc. view_pageCount rt st' = Some pc \<and> 0 < pc)"
proof -
  from assms obtain pc pc' where pc: "view_pageCount rt st = Some pc"
      and pc': "view_pageCount rt (handle pc st (ItemsPerPageChange n)) = Some pc'"
      and st': "st' = (handle pc st (ItemsPerPageChange n))\<lparr>page := clamp_page pc' (page (handle pc st (ItemsPerPageChange n)))\<rparr>"
    by (auto simp: step_def clamp_effect_def split: bind_splits)
  have pos: "1 \<le> pc'" using pc' by (rule view_pageCount_pos)
  have "page st' = 0" using pos by (simp add: st' clamp_page_def)
  moreover have "itemsPerPage st' = n" by (simp add: st')
  moreover have "view_pageCount rt st' = Some pc'" using pc' by (simp add: st')
  ultimately show ?thesis using pos by auto
qed

lemma clamp_effect_last_page:
  assumes "view_pageCount rt st = Some pc" "int pc \<le> page st"
  shows "\<exists>st'. clamp_effect rt st = Some st' \<and> page st' = int pc - 1 \<and> 0 \<le> page st'"
  using assms view_pageCount_pos[OF assms(1)]
  by (simp add: clamp_effect_def clamp_page_def)

text \<open>
  Claim C5, as amended. A change of the page size resets the page index to 0, the first
  page, whatever the new page count is; the index is then below the page count and not
  negative. Resetting to the last valid page, \<open>pageCount - 1\<close>, is what the clamping
  effect does whenever it meets a page index at or beyond the page count, and that
  result is never negative.
\<close>

theorem page_size_change_resets_to_first:
  "(step rt st (ItemsPerPageChange n) = Some st'
      \<longrightarrow> page st' = 0 \<and> itemsPerPage st' = n \<and> (\<exists>pc. view_pageCount rt st' = Some pc \<and> 0 < pc))
   \<and> (view_pageCount rt cur = Some pc \<and> int pc \<le> page cur
      \<longrightarrow> (\<exists>cur'. clamp_effect rt cur = Some cur' \<and> page cur' = int pc - 1 \<and> 0 \<le> page cur'))"
  using step_resize clamp_effect_last_page by blast

lemma demo_resize:
  "step demo_runtime
     \<lparr>list = replicate 13 demo_record, loading = False, search = [], severityFilter = ''all'',
      sortBy = ''newest'', page = 2, itemsPerPage = P6\<rparr>
     (ItemsPerPageChange P8)
   = Some \<lparr>list = replicate 13 demo_record, loading = False, search = [], severityFilter = ''all'',
           sortBy = ''newest'', page = 0, itemsPerPage = P8\<rparr>"
  by (simp add: step_def clamp_effect_def demo_pageCount pageCount_def clamp_page_def)

theorem page_size_change_resets_to_first_witness:
  "step demo_runtime
     \<lparr>list = replicate 13 demo_record, loading = False, search = [], severityFilter = ''all'',
      sortBy = ''newest'', page = 2, itemsPerPage = P6\<rparr>
     (ItemsPerPageChange P8)
   = Some \<lparr>list = replicate 13 demo_record, loading = False, search = [], severityFilter = ''all'',
           sortBy = ''newest'', page = 0, itemsPerPage = P8\<rparr>
   \<and> view_pageCount demo_runtime
       \<lparr>list = replicate 3 demo_record, loading = False, search = [], severityFilter = ''all'',
        sortBy = ''newest'', page = 1, itemsPerPage = P8\<rparr> = Some 1
   \<and> clamp_effect demo_runtime
       \<lparr>list = replicate 3 demo_record, loading = False, search = [], severityFilter = ''all'',
        sortBy = ''newest'', page = 1, itemsPerPage = P8\<rparr>
     = Some \<lparr>list = replicate 3 demo_record, loading = False, search = [], severityFilter = ''all'',
             sortBy = ''newest'', page = 0, itemsPerPage = P8\<rparr>"
proof -
  let ?a = "\<lparr>list = replicate 13 demo_record, loading = False, search = [], severityFilter = ''all'',
      sortBy = ''newest'', page = 2, itemsPerPage = P6\<rparr>"
  let ?a' = "\<lparr>list = replicate 13 demo_record, loading = False, search = [], severityFilter = ''all'',
           sortBy = ''newest'', page = 0, itemsPerPage = P8\<rparr>"
  let ?b = "\<lparr>list = replicate 3 demo_record, loading = False, search = [], severityFilter = ''all'',
        sortBy = ''newest'', page = 1, itemsPerPage = P8\<rparr>"
  have 1: "step demo_runtime ?a (ItemsPerPageChange P8) = Some ?a'" by (rule demo_resize)
  have 2: "view_pageCount demo_runtime ?b = Some 1" by (simp add: demo_pageCount pageCount_def)
  have 3: "int 1 \<le> page ?b" by simp
  from page_size_change_resets_to_first[where rt = demo_runtime and st = ?a and n = P8
      and st' = ?a' and cur = ?b and pc = 1] 1 2 3
  obtain st'' where st'': "clamp_effect demo_runtime ?b = Some st''" "page st'' = int 1 - 1"
    by blast
  have "st'' = ?b\<lparr>page := 0\<rparr>"
    using st'' by (auto simp: clamp_effect_def split: bind_splits)
  with 1 2 st''(1) show ?thesis by simp
qed

text \<open>
  The claim as it is worded fails: with 13 records on pages of 6 and the view on its
  third page (index 2), the change to pages of 8 leaves two pages; the index 2 is at the
  new page count, the wording expects the index 1, and the view shows the index 0.
\<close>

theorem page_size_change_counterexample:
  "run demo_runtime initial_state
     [ItemsPerPageChange P6, SetList (replicate 13 demo_record), SetLoading False, NextClick, NextClick,
      ItemsPerPageChange P8]
   = Some \<lparr>list = replicate 13 demo_record, loading = False, search = [], severityFilter = ''all'',
           sortBy = ''newest'', page = 0, itemsPerPage = P8\<rparr>
   \<and> run demo_runtime initial_state
     [ItemsPerPageChange P6, SetList (replicate 13 demo_record), SetLoading False, NextClick, NextClick]
   = Some \<lparr>list = replicate 13 demo_record, loading = False, search = [], severityFilter = ''all'',
           sortBy = ''newest'', page = 2, itemsPerPage = P6\<rparr>
   \<and> view_pageCount demo_runtime
       \<lparr>list = replicate 13 demo_record, loading = False, search = [], severityFilter = ''all'',
        sortBy = ''newest'', page = 0, itemsPerPage = P8\<rparr> = Some 2
   \<and> claimed_resize_page 2 2 = 1"
  by (simp add: initial_state_def step_def clamp_effect_def demo_pageCount pageCount_def
      clamp_page_def empty_pageCount claimed_resize_page_def)

section \<open>Properties of the export\<close>























text \<open>
  Claim C7. When the sorted set of the view is empty, a click on the export button shows
  the alert \<open>No rows to export\<close>, downloads nothing and leaves the state of the view as it
  was.
\<close>

theorem export_click_empty:
  assumes "view_sorted rt st = Some []"
  shows "export_click rt now st = Some (Alert ''No rows to export'', st)"
  using assms by (simp add: export_click_def exportCsv_def)

theorem export_click_empty_witness:
  "export_click demo_runtime ''2026-11-02T09:30:00.000Z''
     \<lparr>list = [demo_plain], loading = False, search = ''bossy'', severityFilter = ''all'',
      sortBy = ''newest'', page = 0, itemsPerPage = P8\<rparr>
   = Some (Alert ''No rows to export'',
           \<lparr>list = [demo_plain], loading = False, search = ''bossy'', severityFilter = ''all'',
            sortBy = ''newest'', page = 0, itemsPerPage = P8\<rparr>)"
proof -
  have "view_sorted demo_runtime
     \<lparr>list = [demo_plain], loading = False, search = ''bossy'', severityFilter = ''all'',
      sortBy = ''newest'', page = 0, itemsPerPage = P8\<rparr> = Some []"
    by (simp add: view_sorted_def filtered_def matches_def demo_plain_def
      getCattleName_def getTopDisease_def get_def get_opt_def js_or_def lower_def toLowerChar_def
      trim_def is_space_def sorted_arr_def numToStr_def show_int_def show_nat.simps)
  then show ?thesis by (rule export_click_empty)
qed

section \<open>Properties of the load effects\<close>


lemma empty_list_body:
  assumes "list st = []"
  shows "view_sorted rt st = Some []"
    and "view_pageCount rt st = Some 1"
    and "view_body rt st = Some (if loading st then LoadingMessage else EmptyMessage)"
proof -
  show s: "view_sorted rt st = Some []"
    by (simp add: view_sorted_def assms filtered_def sorted_arr_def)
  show "view_pageCount rt st = Some 1"
    using s by (cases "itemsPerPage st") (simp_all add: view_pageCount_def pageCount_def)
  show "view_body rt st = Some (if loading st then LoadingMessage else EmptyMessage)"
    using s by (simp add: view_body_def view_visible_def visible_def slice_def)
qed

lemma load_settle_rejected:
  "load_settle True Rejected
   = [Console ''Failed to load diagnoses'', Set (SetList []), Set (SetLoading False)]"
  by (simp add: load_settle_def)

lemma run_load_failure:
  assumes "view_pageCount rt st = Some pc"
  shows "\<exists>st'. run rt st (setter_calls (load_settle True Rejected)) = Some st'
           \<and> list st' = [] \<and> loading st' = False \<and> view_body rt st' = Some EmptyMessage"
proof -
  define a where "a = st\<lparr>list := [], page := clamp_page 1 (page st)\<rparr>"
  define b where "b = a\<lparr>loading := False, page := clamp_page 1 (page a)\<rparr>"
  have la: "list a = []" and lb: "list b = []" and ldb: "loading b = False"
    by (simp_all add: a_def b_def)
  have p1: "view_pageCount rt (st\<lparr>list := []\<rparr>) = Some 1"
    by (rule empty_list_body(2)) simp
  have pa: "view_pageCount rt a = Some 1"
    by (rule empty_list_body(2)) (rule la)
  have p2: "view_pageCount rt (a\<lparr>loading := False\<rparr>) = Some 1"
    by (rule empty_list_body(2)) (simp add: la)
  have 1: "step rt st (SetList []) = Some a"
    by (simp add: step_def assms clamp_effect_def p1 a_def)
  have 2: "step rt a (SetLoading False) = Some b"
    by (simp add: step_def pa clamp_effect_def p2 b_def)
  have "run rt st (setter_calls (load_settle True Rejected)) = Some b"
    by (simp add: load_settle_rejected setter_calls_def 1 2)
  moreover have "view_body rt b = Some EmptyMessage"
    using empty_list_body(3)[OF lb, of rt] by (simp add: ldb)
  ultimately show ?thesis using lb ldb by blast
qed

lemma dash_rejected:
  assumes "cRes = Rejected \<or> dRes = Rejected"
  shows "dash_load_settle rt cancelled cRes dRes
         = dash_catch @ (if \<not> cancelled then [Set (SetDashLoading False)] else [])"
  using assms by (cases cRes; cases dRes) (simp_all add: dash_load_settle_def)

lemma dash_catch_calls: "setter_calls dash_catch = [SetCattle [], SetDiagnoses []]"
  by (simp add: dash_catch_def setter_calls_def)

lemma setter_calls_append: "setter_calls (xs @ ys) = setter_calls xs @ setter_calls ys"
  by (simp add: setter_calls_def)

lemma setter_calls_Cons:
  "setter_calls (Set c # es) = c # setter_calls es"
  "setter_calls (Console m # es) = setter_calls es"
  "setter_calls [] = []"
  by (simp_all add: setter_calls_def)

text \<open>
  Claim C8. When the request of the diagnosis history fails while the view is mounted,
  the only effects are a console message and the two setters: the list becomes empty,
  the loading flag is cleared and the view shows its empty-state message. When either of
  the dashboard's two requests is rejected, both collections are set to the empty list,
  also the one whose own request succeeded, and the loading flag is cleared if the
  dashboard is still mounted.
\<close>

theorem load_failure_falls_back_to_empty:
  "(view_pageCount rt st \<noteq> None
      \<longrightarrow> (\<exists>st'. run rt st (setter_calls (load_settle True Rejected)) = Some st'
                 \<and> list st' = [] \<and> loading st' = False \<and> view_body rt st' = Some EmptyMessage))
   \<and> load_settle True Rejected
       = [Console ''Failed to load diagnoses'', Set (SetList []), Set (SetLoading False)]
   \<and> (cRes = Rejected \<or> dRes = Rejected
      \<longrightarrow> cattle (foldl dash_apply ds (setter_calls (dash_load_settle rt cancelled cRes dRes))) = []
        \<and> diagnoses (foldl dash_apply ds (setter_calls (dash_load_settle rt cancelled cRes dRes))) = []
        \<and> (\<not> cancelled
             \<longrightarrow> \<not> dash_loading (foldl dash_apply ds (setter_calls (dash_load_settle rt cancelled cRes dRes)))))"
proof (intro conjI impI)
  assume "view_pageCount rt st \<noteq> None"
  then obtain pc where "view_pageCount rt st = Some pc" by blast
  then show "\<exists>st'. run rt st (setter_calls (load_settle True Rejected)) = Some st'
                 \<and> list st' = [] \<and> loading st' = False \<and> view_body rt st' = Some EmptyMessage"
    by (rule run_load_failure)
next
  show "load_settle True Rejected
       = [Console ''Failed to load diagnoses'', Set (SetList []), Set (SetLoading False)]"
    by (rule load_settle_rejected)
next
  assume r: "cRes = Rejected \<or> dRes = Rejected"
  show "cattle (foldl dash_apply ds (setter_calls (dash_load_settle rt cancelled cRes dRes))) = []"
    by (simp add: dash_rejected[OF r] setter_calls_append dash_catch_calls setter_calls_Cons)
  show "diagnoses (foldl dash_apply ds (setter_calls (dash_load_settle rt cancelled cRes dRes))) = []"
    by (simp add: dash_rejected[OF r] setter_calls_append dash_catch_calls setter_calls_Cons)
  assume "\<not> cancelled"
  then show "\<not> dash_loading (foldl dash_apply ds (setter_calls (dash_load_settle rt cancelled cRes dRes)))"
    by (simp add: dash_rejected[OF r] setter_calls_append dash_catch_calls setter_calls_Cons)
qed

theorem load_failure_falls_back_to_empty_witness:
  "run demo_runtime
     \<lparr>list = replicate 3 demo_record, loading = True, search = [], severityFilter = ''all'',
      sortBy = ''oldest'', page = 0, itemsPerPage = P12\<rparr>
     (setter_calls (load_settle True Rejected))
   = Some \<lparr>list = [], loading = False, search = [], severityFilter = ''all'', sortBy = ''oldest'',
           page = 0, itemsPerPage = P12\<rparr>
   \<and> view_body demo_runtime
        \<lparr>list = [], loading = False, search = [], severityFilter = ''all'', sortBy = ''oldest'',
         page = 0, itemsPerPage = P12\<rparr> = Some EmptyMessage
   \<and> foldl dash_apply
        \<lparr>cattle = [JObj [(''id'', JNum 1)]], diagnoses = [JObj [(''id'', JNum 9)]], dash_loading = True\<rparr>
        (setter_calls (dash_load_settle demo_runtime False (Resolved (JArr [JObj [(''id'', JNum 7)]])) Rejected))
     = \<lparr>cattle = [], diagnoses = [], dash_loading = False\<rparr>"
proof -
  let ?st = "\<lparr>list = replicate 3 demo_record, loading = True, search = [], severityFilter = ''all'',
      sortBy = ''oldest'', page = 0, itemsPerPage = P12\<rparr>"
  let ?st' = "\<lparr>list = [], loading = False, search = [], severityFilter = ''all'', sortBy = ''oldest'',
           page = 0, itemsPerPage = P12\<rparr>"
  let ?ds = "\<lparr>cattle = [JObj [(''id'', JNum 1)]], diagnoses = [JObj [(''id'', JNum 9)]], dash_loading = True\<rparr>"
  let ?c = "Resolved (JArr [JObj [(''id'', JNum 7)]])"
  have pc: "view_pageCount demo_runtime ?st \<noteq> None"
    by (simp add: demo_pageCount pageCount_def)
  note t = load_failure_falls_back_to_empty[of demo_runtime ?st ?c Rejected ?ds False]
  from t pc obtain st' where st': "run demo_runtime ?st (setter_calls (load_settle True Rejected)) = Some st'"
      "list st' = []" "loading st' = False" "view_body demo_runtime st' = Some EmptyMessage"
    by blast
  have run: "run demo_runtime ?st (setter_calls (load_settle True Rejected)) = Some ?st'"
    by (simp add: load_settle_rejected setter_calls_Cons step_def clamp_effect_def
        demo_pageCount pageCount_def empty_pageCount clamp_page_def)
  have body: "view_body demo_runtime ?st' = Some EmptyMessage"
    using st'(4) st'(1) run by simp
  from t have d: "cattle (foldl dash_apply ?ds (setter_calls (dash_load_settle demo_runtime False ?c Rejected))) = []"
    by simp
  have d': "foldl dash_apply ?ds (setter_calls (dash_load_settle demo_runtime False ?c Rejected))
           = \<lparr>cattle = [], diagnoses = [], dash_loading = False\<rparr>"
    by (simp add: dash_load_settle_def dash_catch_def setter_calls_Cons)
  from run body d' show ?thesis by simp
qed






text \<open>
  Claim C9 holds of the diagnosis history, whose setters are all guarded by the
  \<open>mounted\<close> flag, and of the dashboard when both requests resolve. It does not hold of
  the dashboard when a request is rejected after the unmount: the \<open>catch\<close> block calls
  \<open>setCattle([])\<close> and \<open>setDiagnoses([])\<close> without testing \<open>cancelled\<close>.
\<close>

theorem dashboard_failure_after_unmount_calls_setters:
  "setter_calls (dash_load_settle rt True Rejected dRes) = [SetCattle [], SetDiagnoses []]
   \<and> setter_calls (dash_load_settle rt True cRes Rejected) = [SetCattle [], SetDiagnoses []]
   \<and> setter_calls (dash_load_settle rt True (Resolved c) (Resolved d)) = []
   \<and> setter_calls (load_settle False res) = []"
proof (intro conjI)
  show "setter_calls (dash_load_settle rt True Rejected dRes) = [SetCattle [], SetDiagnoses []]"
    by (simp add: dash_rejected setter_calls_append dash_catch_calls setter_calls_Cons)
  show "setter_calls (dash_load_settle rt True cRes Rejected) = [SetCattle [], SetDiagnoses []]"
    by (simp add: dash_rejected setter_calls_append dash_catch_calls setter_calls_Cons)
  show "setter_calls (dash_load_settle rt True (Resolved c) (Resolved d)) = []"
    by (simp add: dash_load_settle_def setter_calls_Cons)
  show "setter_calls (load_settle False res) = []"
    by (cases res) (simp_all add: load_settle_def setter_calls_Cons)
qed

end
